theory Spec2Isabelle
  imports Main "HOL-Library.Word" "HOL-Library.Sublist"
begin

section \<open>errx: chained errors with stack traces\<close>

text \<open>
  The repository holds several historical variants of the same two Go files. The model
  follows the most recent one: \<^verbatim>\<open>src/unnamed/part_000\<close> (the chain model with
  \<^verbatim>\<open>Format\<close>) together with \<^verbatim>\<open>src/unnamed/part_003\<close> (the stack capturer with
  \<^verbatim>\<open>AdjustCallerSkipLevel\<close>). The helpers \<^verbatim>\<open>PrintMessages\<close> and
  \<^verbatim>\<open>PrintWithStack\<close> exist only in \<^verbatim>\<open>src/unnamed/part_001\<close> and are taken from
  there. The first half of \<^verbatim>\<open>src/unnamed/part_002\<close> has the renderer of part\_000 word
  for word. The oldest variant, \<^verbatim>\<open>src/error.go\<close> with the capturer in the second half
  of \<^verbatim>\<open>src/unnamed/part_002\<close>, is modelled beside it under names that start with
  \<open>old_\<close>.

  Go strings are byte sequences and are modelled as \<^typ>\<open>string\<close>; their length is
  not bounded, so running out of memory is outside the model.
\<close>

subsection \<open>Panics and non-termination\<close>

text \<open>
  A Go function either returns a value or panics. Recursive renderers carry fuel:
  \<open>None\<close> means that the recursion did not come back within the fuel.
\<close>

datatype 'a result = Panic | Return 'a

definition bind_result :: "'a result option \<Rightarrow> ('a \<Rightarrow> 'b result option) \<Rightarrow> 'b result option" where
  "bind_result m f = (case m of None \<Rightarrow> None | Some Panic \<Rightarrow> Some Panic | Some (Return x) \<Rightarrow> f x)"

subsection \<open>Library functions of package strings\<close>

definition sep :: char where
  "sep = CHR ''/''"

definition sepLen :: int where
  "sepLen = 1"

definition Count :: "string \<Rightarrow> char \<Rightarrow> nat" where
  "Count s c = count_list s c"

text \<open>\<^verbatim>\<open>strings.LastIndex(s, sep)\<close>: the index of the last separator, or \<open>-1\<close>.\<close>

fun LastIndex :: "string \<Rightarrow> char \<Rightarrow> int" where
  "LastIndex [] c = -1"
| "LastIndex (x # xs) c =
     (let r = LastIndex xs c in
      if r \<noteq> -1 then r + 1 else if x = c then 0 else -1)"

definition Repeat :: "string \<Rightarrow> nat \<Rightarrow> string" where
  "Repeat s n = concat (replicate n s)"

text \<open>
  \<^verbatim>\<open>utf8.DecodeRuneInString\<close>, of which only the width matters here: the number of
  bytes of the first UTF-8 sequence of a string that is not empty, and 1 for a byte that
  starts no well-formed sequence.
\<close>

definition continuation :: "nat \<Rightarrow> nat \<Rightarrow> char list \<Rightarrow> nat \<Rightarrow> bool" where
  "continuation lo hi s i = (i < length s \<and> lo \<le> of_char (s ! i) \<and> of_char (s ! i) \<le> (hi::nat))"

definition rune_width :: "string \<Rightarrow> nat" where
  "rune_width s =
     (let s0 = (of_char (hd s) :: nat);
          sz = (if s0 < 0xC2 then 1 else if s0 < 0xE0 then 2 else if s0 < 0xF0 then 3
                else if s0 < 0xF5 then 4 else 1);
          lo = (if s0 = 0xE0 then 0xA0 else if s0 = 0xF0 then 0x90 else 0x80);
          hi = (if s0 = 0xED then 0x9F else if s0 = 0xF4 then 0x8F else 0xBF)
      in if sz = 1 then 1
         else if length s < sz then 1
         else if \<not> continuation lo hi s 1 then 1
         else if sz = 2 then 2
         else if \<not> continuation 0x80 0xBF s 2 then 1
         else if sz = 3 then 3
         else if \<not> continuation 0x80 0xBF s 3 then 1
         else 4)"

text \<open>
  \<^verbatim>\<open>strings.Replace(s, old, new, -1)\<close>: every non-overlapping instance of \<open>old\<close>, from
  the left, becomes \<open>new\<close>; an empty \<open>old\<close> matches at the beginning of the string and
  after each UTF-8 sequence.
\<close>

function replace_all :: "string \<Rightarrow> string \<Rightarrow> string \<Rightarrow> string" where
  "replace_all [] old new = []"
| "replace_all (c # s) old new =
     (if old \<noteq> [] \<and> prefix old (c # s)
      then new @ replace_all (drop (length old) (c # s)) old new
      else c # replace_all s old new)"
  by pat_completeness auto
termination
  by (relation "measure (\<lambda>(s, old, new). length s)") (auto simp: neq_Nil_conv)

function replace_empty :: "string \<Rightarrow> string \<Rightarrow> string" where
  "replace_empty [] new = []"
| "replace_empty (c # s) new =
     (let w = max 1 (rune_width (c # s))
      in take w (c # s) @ new @ replace_empty (drop w (c # s)) new)"
  by pat_completeness auto
termination
  by (relation "measure (\<lambda>(s, new). length s)") auto

definition Replace :: "string \<Rightarrow> string \<Rightarrow> string \<Rightarrow> string" where
  "Replace s old new =
     (if old = [] then new @ replace_empty s new else replace_all s old new)"

text \<open>The slice expression \<^verbatim>\<open>s[k:]\<close> panics when \<open>k\<close> is beyond the length.\<close>

definition slice_from :: "string \<Rightarrow> nat \<Rightarrow> string result" where
  "slice_from s k = (if k \<le> length s then Return (drop k s) else Panic)"

text \<open>The verb \<^verbatim>\<open>%d\<close> of package fmt.\<close>

fun itoa_nat :: "nat \<Rightarrow> string" where
  "itoa_nat n =
     (if n < 10 then [char_of (48 + n)]
      else itoa_nat (n div 10) @ [char_of (48 + n mod 10)])"

declare itoa_nat.simps [simp del]

definition itoa :: "int \<Rightarrow> string" where
  "itoa i = (if i < 0 then CHR ''-'' # itoa_nat (nat (- i)) else itoa_nat (nat i))"

subsection \<open>Stack capturer (part\_003)\<close>

definition minCallerSkipLevel :: "64 word" where
  "minCallerSkipLevel = 4"

definition maxStackDepth :: nat where
  "maxStackDepth = 32"

text \<open>
  The package variable \<^verbatim>\<open>callerSkipLevel\<close> is the only state of the capturer; it is a
  Go \<^verbatim>\<open>int\<close> (64 bits here), read as two's complement, and starts at the minimum.
\<close>

definition callerSkipLevel_init :: "64 word" where
  "callerSkipLevel_init = minCallerSkipLevel"

definition AdjustCallerSkipLevel :: "64 word \<Rightarrow> 64 word \<Rightarrow> 64 word" where
  "AdjustCallerSkipLevel callerSkipLevel amt =
     (let newCallerSkipLevel = callerSkipLevel + amt in
      if sint minCallerSkipLevel \<le> sint newCallerSkipLevel
      then newCallerSkipLevel
      else minCallerSkipLevel)"

record StackFrame =
  FunctionName :: string
  FileName :: string
  TrimmedFileName :: string
  Line :: int

definition StackFrame_String :: "StackFrame \<Rightarrow> string" where
  "StackFrame_String s =
     ''  at '' @ FunctionName s @ ''('' @ TrimmedFileName s @ '':'' @ itoa (Line s) @ '')'' @ [CHR 0x0A]"

text \<open>
  \<^verbatim>\<open>type StackTrace []StackFrame\<close>: a slice, where \<open>None\<close> is the nil slice and
  \<open>Some []\<close> an empty slice that is not nil.
\<close>

type_synonym StackTrace = "StackFrame list option"

definition StackTrace_String :: "StackFrame list \<Rightarrow> string" where
  "StackTrace_String s = foldl (\<lambda>b f. b @ StackFrame_String f) [] s"

text \<open>The loop of \<^verbatim>\<open>trimGOPATH\<close>, with the iterations left as its first argument.\<close>

fun trimGOPATH_loop :: "nat \<Rightarrow> string \<Rightarrow> int \<Rightarrow> int" where
  "trimGOPATH_loop 0 file i = i"
| "trimGOPATH_loop (Suc k) file i =
     (let i' = LastIndex (take (nat i) file) sep in
      if i' = -1 then - sepLen else trimGOPATH_loop k file i')"

definition trimGOPATH :: "string \<Rightarrow> string \<Rightarrow> string" where
  "trimGOPATH name file =
     (let goal = Count name sep + 2;
          i = trimGOPATH_loop goal file (int (length file))
      in drop (nat (i + sepLen)) file)"

text \<open>
  What the Go runtime gives for one program counter of the call stack:
  \<^verbatim>\<open>runtime.FuncForPC(pc)\<close> is nil (\<open>None\<close>) or a function, of which the model
  keeps \<^verbatim>\<open>Name()\<close> and \<^verbatim>\<open>FileLine(pc)\<close>. The call stack is a parameter of the
  model: the list of these, from the frame of \<^verbatim>\<open>runtime.Callers\<close> itself outwards.
\<close>

record pcinfo =
  pc_name :: string
  pc_file :: string
  pc_line :: int

text \<open>\<^verbatim>\<open>append\<close> on a slice that may be nil.\<close>

definition append_frame :: "StackTrace \<Rightarrow> StackFrame \<Rightarrow> StackTrace" where
  "append_frame st f = (case st of None \<Rightarrow> Some [f] | Some fs \<Rightarrow> Some (fs @ [f]))"

definition Callers :: "64 word \<Rightarrow> pcinfo option list \<Rightarrow> pcinfo option list" where
  "Callers skip stack = take maxStackDepth (drop (nat (sint skip)) stack)"

text \<open>
  The loop of \<^verbatim>\<open>getStack\<close> over the program counters. On a nil \<^verbatim>\<open>*runtime.Func\<close>
  the method \<^verbatim>\<open>Name\<close> returns the empty string and \<^verbatim>\<open>FileLine\<close>, which the loop
  calls without a test, dereferences the nil pointer.
\<close>

fun getStack_loop :: "StackTrace \<Rightarrow> pcinfo option list \<Rightarrow> StackTrace result" where
  "getStack_loop st [] = Return st"
| "getStack_loop st (pc # pcs) =
     (case pc of
        None \<Rightarrow> Panic
      | Some pcFunc \<Rightarrow>
          let name = pc_name pcFunc; fileName = pc_file pcFunc; line = pc_line pcFunc;
              trimmed = trimGOPATH name fileName
          in getStack_loop
               (append_frame st \<lparr>FunctionName = name, FileName = fileName,
                                  TrimmedFileName = trimmed, Line = line\<rparr>) pcs)"

text \<open>\<^verbatim>\<open>getStack\<close> of part\_003 starts from \<^verbatim>\<open>var st StackTrace\<close>, the nil slice.\<close>

definition getStack :: "64 word \<Rightarrow> pcinfo option list \<Rightarrow> StackTrace result" where
  "getStack callerSkipLevel stack = getStack_loop None (Callers callerSkipLevel stack)"

subsection \<open>Chain model: data (part\_000)\<close>

text \<open>
  A value of the interface type \<^verbatim>\<open>error\<close> is the nil interface, a pointer of type
  \<^verbatim>\<open>*Error\<close> (which may itself be a nil pointer), or an error of some other type. Of
  the last the model keeps what a call of its \<^verbatim>\<open>Error()\<close> method does: it returns a
  string, it panics (as a method with a value receiver does on a nil pointer), or it
  does not come back (\<open>None\<close>).
\<close>

type_synonym addr = nat

datatype error_iface = NilError | ErrorPtr "addr option" | Opaque "string result option"

record Error =
  Inner :: error_iface
  Message :: string
  StackTrace :: StackTrace

text \<open>
  The objects of type \<^verbatim>\<open>Error\<close> live in a store; an address is an index into it and
  allocation appends. Dereferencing a nil pointer panics. (An address beyond the store
  cannot arise in Go; the model lets it panic as well.)
\<close>

type_synonym heap = "Error list"

definition deref :: "heap \<Rightarrow> addr option \<Rightarrow> Error result" where
  "deref h p =
     (case p of None \<Rightarrow> Panic
      | Some a \<Rightarrow> if a < length h then Return (h ! a) else Panic)"

definition isZero :: "heap \<Rightarrow> addr option \<Rightarrow> bool result" where
  "isZero h e =
     (case deref h e of Panic \<Rightarrow> Panic
      | Return E \<Rightarrow> Return (Inner E = NilError \<and> Message E = [] \<and> StackTrace E = None))"

subsection \<open>Chain model: rendering (part\_000)\<close>

definition padding :: string where
  "padding = '' ''"

definition pad :: "string \<Rightarrow> string \<Rightarrow> string" where
  "pad b str = (if length b = 0 then b else b @ str)"

text \<open>
  The block that follows \<^verbatim>\<open>b.WriteString("\n")\<close> in every renderer: the trace is
  written as it is at depth 0 and with its indentation rewritten below.
\<close>

definition writeStack :: "StackFrame list \<Rightarrow> nat \<Rightarrow> string \<Rightarrow> string \<Rightarrow> string result" where
  "writeStack st depth separator b =
     (if depth > 0 then
        (let prefix = Repeat separator (depth + 1) in
         case slice_from prefix (depth * 2) of Panic \<Rightarrow> Panic
         | Return old \<Rightarrow> Return (b @ Replace (StackTrace_String st) old prefix))
      else Return (b @ StackTrace_String st))"

text \<open>
  \<^verbatim>\<open>func (e *Error) error(depth int, separator string, printStack bool) string\<close>.
  The depth only grows from 0 and is kept as a natural number.
\<close>

fun error :: "nat \<Rightarrow> heap \<Rightarrow> addr option \<Rightarrow> nat \<Rightarrow> string \<Rightarrow> bool \<Rightarrow> string result option" where
  "error 0 h e depth separator printStack = None"
| "error (Suc fuel) h e depth separator printStack =
     (case deref h e of Panic \<Rightarrow> Some Panic
      | Return E \<Rightarrow>
          let b = (if Message E \<noteq> [] then pad [] padding @ Message E else []) in
          bind_result
            (case Inner E of
               NilError \<Rightarrow> Some (Return b)
             | ErrorPtr inner \<Rightarrow>
                 bind_result (Some (isZero h inner)) (\<lambda>zero.
                   if \<not> zero
                   then bind_result (error fuel h inner (depth + 1) separator printStack)
                          (\<lambda>s. Some (Return (pad b separator @ s)))
                   else Some (Return b))
             | Opaque Inner_Error \<Rightarrow>
                 bind_result Inner_Error (\<lambda>s. Some (Return (pad b separator @ s))))
            (\<lambda>b. case StackTrace E of
                   None \<Rightarrow> Some (Return b)
                 | Some st \<Rightarrow>
                     if printStack
                     then Some (writeStack st depth separator (b @ [CHR 0x0A]))
                     else Some (Return b)))"

definition Error :: "nat \<Rightarrow> heap \<Rightarrow> addr option \<Rightarrow> string result option" where
  "Error fuel h e = error fuel h e 0 '': '' False"

text \<open>
  \<^verbatim>\<open>Format(f, c)\<close>: what is printed to \<open>f\<close> for the verb \<open>c\<close>, with or without the
  flag \<^verbatim>\<open>-\<close>.
\<close>

definition Format :: "nat \<Rightarrow> heap \<Rightarrow> addr option \<Rightarrow> bool \<Rightarrow> char \<Rightarrow> string result option" where
  "Format fuel h e flagMinus c =
     (if c = CHR ''v'' then
        (if flagMinus then error fuel h e 0 '': '' False else error fuel h e 0 '': '' True)
      else if c = CHR ''s'' then
        (if flagMinus then error fuel h e 0 '': '' False else error fuel h e 0 '': '' True)
      else Some (Return []))"

subsection \<open>Chain model: constructors (part\_000)\<close>

definition newErr :: "64 word \<Rightarrow> pcinfo option list \<Rightarrow> heap \<Rightarrow> string \<Rightarrow> (heap \<times> error_iface) result" where
  "newErr callerSkipLevel stack h message =
     (case getStack callerSkipLevel stack of Panic \<Rightarrow> Panic
      | Return st \<Rightarrow>
          Return (h @ [\<lparr>Inner = NilError, Message = message, StackTrace = st\<rparr>],
                  ErrorPtr (Some (length h))))"

definition New :: "64 word \<Rightarrow> pcinfo option list \<Rightarrow> heap \<Rightarrow> string \<Rightarrow> (heap \<times> error_iface) result" where
  "New callerSkipLevel stack h message = newErr callerSkipLevel stack h message"

definition wrapErr :: "64 word \<Rightarrow> pcinfo option list \<Rightarrow> heap \<Rightarrow> error_iface \<Rightarrow> string \<Rightarrow> (heap \<times> error_iface) result" where
  "wrapErr callerSkipLevel stack h err message =
     (let e = length h;
          h1 = h @ [\<lparr>Inner = NilError, Message = message, StackTrace = None\<rparr>]
      in case err of
           ErrorPtr inner \<Rightarrow>
             (case deref h1 inner of Panic \<Rightarrow> Panic
              | Return copied \<Rightarrow>
                  let c = length h1;
                      h2 = h1 @ [copied];
                      h3 = h2[e := (h2 ! e)\<lparr>Inner := ErrorPtr (Some c)\<rparr>]
                  in Return (h3, ErrorPtr (Some e)))
         | _ \<Rightarrow>
             let h2 = h1[e := (h1 ! e)\<lparr>Inner := err\<rparr>]
             in (case getStack callerSkipLevel stack of Panic \<Rightarrow> Panic
                 | Return st \<Rightarrow>
                     let h3 = h2[e := (h2 ! e)\<lparr>StackTrace := st\<rparr>]
                     in Return (h3, ErrorPtr (Some e))))"

definition Wrap :: "64 word \<Rightarrow> pcinfo option list \<Rightarrow> heap \<Rightarrow> error_iface \<Rightarrow> string \<Rightarrow> (heap \<times> error_iface) result" where
  "Wrap callerSkipLevel stack h err message = wrapErr callerSkipLevel stack h err message"

subsection \<open>The oldest variant (error.go, second half of part\_002)\<close>

text \<open>\<^verbatim>\<open>src/error.go\<close> and part\_001 declare the constant \<^verbatim>\<open>separator\<close>.\<close>

definition separator :: string where
  "separator = ''  ''"


definition SetCallerSkipLevel :: "64 word \<Rightarrow> 64 word \<Rightarrow> 64 word" where
  "SetCallerSkipLevel callerSkipLevel level = level"

definition old_getStack :: "64 word \<Rightarrow> pcinfo option list \<Rightarrow> StackTrace result" where
  "old_getStack callerSkipLevel stack =
     getStack_loop (Some []) (Callers (4 + callerSkipLevel) stack)"





subsection \<open>Rendering helpers (part\_001)\<close>

fun message :: "nat \<Rightarrow> heap \<Rightarrow> addr option \<Rightarrow> nat \<Rightarrow> string result option" where
  "message 0 h e depth = None"
| "message (Suc fuel) h e depth =
     (case deref h e of Panic \<Rightarrow> Some Panic
      | Return E \<Rightarrow>
          let b = (if Message E \<noteq> [] then pad [] '' '' @ Message E else []) in
          (case Inner E of
             NilError \<Rightarrow> Some (Return b)
           | ErrorPtr inner \<Rightarrow>
               bind_result (Some (isZero h inner)) (\<lambda>zero.
                 if \<not> zero
                 then bind_result (message fuel h inner (depth + 1))
                        (\<lambda>s. Some (Return (pad b '': '' @ s)))
                 else Some (Return b))
           | Opaque Inner_Error \<Rightarrow>
               bind_result Inner_Error (\<lambda>s. Some (Return (pad b '': '' @ s)))))"

fun printStack :: "nat \<Rightarrow> heap \<Rightarrow> addr option \<Rightarrow> nat \<Rightarrow> string result option" where
  "printStack 0 h e depth = None"
| "printStack (Suc fuel) h e depth =
     (case deref h e of Panic \<Rightarrow> Some Panic
      | Return E \<Rightarrow>
          let b = (if Message E \<noteq> [] then pad [] padding @ Message E else []) in
          bind_result
            (case Inner E of
               NilError \<Rightarrow> Some (Return b)
             | ErrorPtr inner \<Rightarrow>
                 (let repeatedSep = CHR 0x0A # Repeat separator (depth + 1) in
                  bind_result (Some (isZero h inner)) (\<lambda>zero.
                    if \<not> zero
                    then bind_result (printStack fuel h inner (depth + 1))
                           (\<lambda>s. Some (Return (pad b repeatedSep @ s)))
                    else Some (Return b)))
             | Opaque Inner_Error \<Rightarrow>
                 bind_result Inner_Error (\<lambda>s. Some (Return (pad b padding @ s))))
            (\<lambda>b. case StackTrace E of
                   None \<Rightarrow> Some (Return b)
                 | Some st \<Rightarrow> Some (writeStack st depth separator (b @ [CHR 0x0A]))))"

definition PrintMessages :: "nat \<Rightarrow> heap \<Rightarrow> error_iface \<Rightarrow> string result option" where
  "PrintMessages fuel h err =
     (case err of
        NilError \<Rightarrow> Some (Return [])
      | ErrorPtr e \<Rightarrow> message fuel h e 0
      | Opaque err_Error \<Rightarrow> err_Error)"

definition PrintWithStack :: "nat \<Rightarrow> heap \<Rightarrow> error_iface \<Rightarrow> string result option" where
  "PrintWithStack fuel h err =
     (case err of
        NilError \<Rightarrow> Some (Return [])
      | ErrorPtr e \<Rightarrow> printStack fuel h e 0
      | Opaque err_Error \<Rightarrow> err_Error)"

subsection \<open>Chains in the store\<close>

text \<open>
  \<open>chain h as\<close>: the objects at the addresses \<open>as\<close> exist and each one's
  \<^verbatim>\<open>Inner\<close> points to the next. \<open>zero_node E\<close>: the three fields of \<open>E\<close> have
  their zero values, which is what the spec calls an empty node.
\<close>

fun chain :: "heap \<Rightarrow> addr list \<Rightarrow> bool" where
  "chain h [] = True"
| "chain h [a] = (a < length h)"
| "chain h (a # b # as) = (a < length h \<and> Inner (h ! a) = ErrorPtr (Some b) \<and> chain h (b # as))"

definition zero_node :: "Error \<Rightarrow> bool" where
  "zero_node E = (E = \<lparr>Inner = NilError, Message = [], StackTrace = None\<rparr>)"

text \<open>
  How a chain \<open>as\<close> ends, with the text \<open>t\<close> that a foreign error at its end returns:
  its last node has no inner error (and is itself not the zero node, unless it is the
  only node), or its inner error is a pointer to the zero node, or its inner error is a
  foreign error whose \<^verbatim>\<open>Error()\<close> returns \<open>s\<close>.
\<close>

definition chain_ends :: "heap \<Rightarrow> addr list \<Rightarrow> string option \<Rightarrow> bool" where
  "chain_ends h as t =
     (let L = h ! last as in
      case Inner L of
        NilError \<Rightarrow> t = None \<and> (length as = 1 \<or> \<not> zero_node L)
      | ErrorPtr inner \<Rightarrow>
          t = None \<and> (case inner of None \<Rightarrow> False
                      | Some b \<Rightarrow> b < length h \<and> zero_node (h ! b))
      | Opaque Inner_Error \<Rightarrow>
          (case t of None \<Rightarrow> False | Some s \<Rightarrow> Inner_Error = Some (Return s)))"

text \<open>
  The messages of a chain and the text of a foreign error at its end, joined: the
  separator follows every non-empty message that is not the last thing written.
\<close>

fun joinChain :: "string list \<Rightarrow> string option \<Rightarrow> string" where
  "joinChain [] None = []"
| "joinChain [] (Some s) = s"
| "joinChain [m] None = m"
| "joinChain (m # ms) t = m @ (if m = [] then [] else '': '') @ joinChain ms t"

text \<open>
  \<open>wellformed n h e\<close>: following \<^verbatim>\<open>Inner\<close> from the pointer \<open>e\<close> meets at most \<open>n\<close>
  objects, none of them through a nil pointer of type \<^verbatim>\<open>*Error\<close>, and a foreign
  error at the end is one whose \<^verbatim>\<open>Error()\<close> returns.
\<close>

fun wellformed :: "nat \<Rightarrow> heap \<Rightarrow> addr option \<Rightarrow> bool" where
  "wellformed 0 h e = False"
| "wellformed (Suc n) h e =
     (case deref h e of Panic \<Rightarrow> False
      | Return E \<Rightarrow>
          (case Inner E of
             NilError \<Rightarrow> True
           | ErrorPtr inner \<Rightarrow> wellformed n h inner
           | Opaque Inner_Error \<Rightarrow>
               (case Inner_Error of Some (Return s) \<Rightarrow> True | _ \<Rightarrow> False)))"

text \<open>\<open>resolved stack\<close>: the runtime knows the function of every frame of the stack.\<close>

definition resolved :: "pcinfo option list \<Rightarrow> bool" where
  "resolved stack = list_all (\<lambda>pc. pc \<noteq> None) stack"

text \<open>
  \<open>reach n h x\<close>: the addresses met in at most \<open>n\<close> steps along \<^verbatim>\<open>Inner\<close>, starting
  at the interface value \<open>x\<close>. \<open>closed h\<close>: every pointer kept in the store points into
  the store.
\<close>

fun reach :: "nat \<Rightarrow> heap \<Rightarrow> error_iface \<Rightarrow> addr list" where
  "reach 0 h x = []"
| "reach (Suc n) h x =
     (case x of
        ErrorPtr (Some a) \<Rightarrow> a # (if a < length h then reach n h (Inner (h ! a)) else [])
      | _ \<Rightarrow> [])"

definition closed :: "heap \<Rightarrow> bool" where
  "closed h = (\<forall>a < length h. \<forall>b. Inner (h ! a) = ErrorPtr (Some b) \<longrightarrow> b < length h)"

text \<open>
  \<open>same_but_traces h h'\<close>: two stores hold, address by address, objects with the same
  \<^verbatim>\<open>Inner\<close> and \<^verbatim>\<open>Message\<close> whose \<^verbatim>\<open>StackTrace\<close> fields are both nil or both not
  nil, and are otherwise unrelated.
\<close>

definition same_but_traces :: "heap \<Rightarrow> heap \<Rightarrow> bool" where
  "same_but_traces h h' =
     list_all2 (\<lambda>E E'. Inner E = Inner E' \<and> Message E = Message E' \<and>
                        (StackTrace E = None \<longleftrightarrow> StackTrace E' = None)) h h'"

text \<open>\<open>no_newline h\<close>: no message and no text of a foreign error in the store has a line feed.\<close>

definition no_newline :: "heap \<Rightarrow> bool" where
  "no_newline h =
     list_all (\<lambda>E. CHR 0x0A \<notin> set (Message E) \<and>
                   (case Inner E of
                      Opaque (Some (Return s)) \<Rightarrow> CHR 0x0A \<notin> set s
                    | _ \<Rightarrow> True)) h"

text \<open>\<open>drop_frames h\<close>: every stack trace of the store emptied, nil ones left nil.\<close>

definition drop_frames :: "heap \<Rightarrow> heap" where
  "drop_frames h = map (\<lambda>E. E\<lparr>StackTrace := map_option (\<lambda>st. []) (StackTrace E)\<rparr>) h"

subsection \<open>Call stacks and stores for the examples\<close>

text \<open>
  The call stack of a call of \<^verbatim>\<open>Wrap\<close> in \<^verbatim>\<open>main.main\<close>, that of a call of
  \<^verbatim>\<open>New\<close> there, and that of a call of \<^verbatim>\<open>Wrap\<close> in the function a goroutine was
  started with.
\<close>

definition example_stack :: "pcinfo option list" where
  "example_stack = map Some
     [\<lparr>pc_name = ''runtime.Callers'', pc_file = ''/usr/local/go/src/runtime/extern.go'', pc_line = 331\<rparr>,
      \<lparr>pc_name = ''github.com/1gm/errx.getStack'', pc_file = ''/home/user/src/github.com/1gm/errx/stack.go'', pc_line = 71\<rparr>,
      \<lparr>pc_name = ''github.com/1gm/errx.wrapErr'', pc_file = ''/home/user/src/github.com/1gm/errx/error.go'', pc_line = 197\<rparr>,
      \<lparr>pc_name = ''github.com/1gm/errx.Wrap'', pc_file = ''/home/user/src/github.com/1gm/errx/error.go'', pc_line = 169\<rparr>,
      \<lparr>pc_name = ''main.main'', pc_file = ''/home/user/src/examples/main.go'', pc_line = 13\<rparr>,
      \<lparr>pc_name = ''runtime.main'', pc_file = ''/usr/local/go/src/runtime/proc.go'', pc_line = 207\<rparr>,
      \<lparr>pc_name = ''runtime.goexit'', pc_file = ''/usr/local/go/src/runtime/asm_amd64.s'', pc_line = 2362\<rparr>]"

definition example_stack_New :: "pcinfo option list" where
  "example_stack_New = map Some
     [\<lparr>pc_name = ''runtime.Callers'', pc_file = ''/usr/local/go/src/runtime/extern.go'', pc_line = 331\<rparr>,
      \<lparr>pc_name = ''github.com/1gm/errx.getStack'', pc_file = ''/home/user/src/github.com/1gm/errx/stack.go'', pc_line = 71\<rparr>,
      \<lparr>pc_name = ''github.com/1gm/errx.newErr'', pc_file = ''/home/user/src/github.com/1gm/errx/error.go'', pc_line = 100\<rparr>,
      \<lparr>pc_name = ''github.com/1gm/errx.New'', pc_file = ''/home/user/src/github.com/1gm/errx/error.go'', pc_line = 73\<rparr>,
      \<lparr>pc_name = ''main.main'', pc_file = ''/home/user/src/examples/main.go'', pc_line = 13\<rparr>,
      \<lparr>pc_name = ''runtime.main'', pc_file = ''/usr/local/go/src/runtime/proc.go'', pc_line = 207\<rparr>,
      \<lparr>pc_name = ''runtime.goexit'', pc_file = ''/usr/local/go/src/runtime/asm_amd64.s'', pc_line = 2362\<rparr>]"

definition example_goroutine_stack :: "pcinfo option list" where
  "example_goroutine_stack = map Some
     [\<lparr>pc_name = ''runtime.Callers'', pc_file = ''/usr/local/go/src/runtime/extern.go'', pc_line = 331\<rparr>,
      \<lparr>pc_name = ''github.com/1gm/errx.getStack'', pc_file = ''/home/user/src/github.com/1gm/errx/stack.go'', pc_line = 71\<rparr>,
      \<lparr>pc_name = ''github.com/1gm/errx.wrapErr'', pc_file = ''/home/user/src/github.com/1gm/errx/error.go'', pc_line = 197\<rparr>,
      \<lparr>pc_name = ''github.com/1gm/errx.Wrap'', pc_file = ''/home/user/src/github.com/1gm/errx/error.go'', pc_line = 169\<rparr>,
      \<lparr>pc_name = ''main.worker'', pc_file = ''/home/user/src/examples/main.go'', pc_line = 21\<rparr>,
      \<lparr>pc_name = ''runtime.goexit'', pc_file = ''/usr/local/go/src/runtime/asm_amd64.s'', pc_line = 2362\<rparr>]"

text \<open>What \<^verbatim>\<open>getStack\<close> captures of the first two stacks at the initial skip level.\<close>

definition example_trace :: "StackFrame list" where
  "example_trace =
     [\<lparr>FunctionName = ''main.main'', FileName = ''/home/user/src/examples/main.go'',
        TrimmedFileName = ''examples/main.go'', Line = 13\<rparr>,
      \<lparr>FunctionName = ''runtime.main'', FileName = ''/usr/local/go/src/runtime/proc.go'',
        TrimmedFileName = ''runtime/proc.go'', Line = 207\<rparr>,
      \<lparr>FunctionName = ''runtime.goexit'', FileName = ''/usr/local/go/src/runtime/asm_amd64.s'',
        TrimmedFileName = ''runtime/asm_amd64.s'', Line = 2362\<rparr>]"

definition example_chain :: heap where
  "example_chain =
     [\<lparr>Inner = ErrorPtr (Some 1), Message = ''outer'', StackTrace = None\<rparr>,
      \<lparr>Inner = ErrorPtr (Some 2), Message = ''middle'', StackTrace = None\<rparr>,
      \<lparr>Inner = NilError, Message = ''inner'', StackTrace = Some example_trace\<rparr>]"

definition example_chain_other_traces :: heap where
  "example_chain_other_traces =
     [\<lparr>Inner = ErrorPtr (Some 1), Message = ''outer'', StackTrace = None\<rparr>,
      \<lparr>Inner = ErrorPtr (Some 2), Message = ''middle'', StackTrace = None\<rparr>,
      \<lparr>Inner = NilError, Message = ''inner'', StackTrace = Some []\<rparr>]"

text \<open>
  A chain with an empty message in the middle that ends at a pointer to the zero node,
  one that ends at a foreign error, and one whose last node has an empty message and a
  trace.
\<close>

definition example_chain_zero_end :: heap where
  "example_chain_zero_end =
     [\<lparr>Inner = ErrorPtr (Some 1), Message = ''outer'', StackTrace = None\<rparr>,
      \<lparr>Inner = ErrorPtr (Some 2), Message = [], StackTrace = None\<rparr>,
      \<lparr>Inner = ErrorPtr (Some 3), Message = ''inner'', StackTrace = Some example_trace\<rparr>,
      \<lparr>Inner = NilError, Message = [], StackTrace = None\<rparr>]"

definition example_chain_foreign_end :: heap where
  "example_chain_foreign_end =
     [\<lparr>Inner = ErrorPtr (Some 1), Message = ''outer'', StackTrace = None\<rparr>,
      \<lparr>Inner = Opaque (Some (Return ''inner'')), Message = ''middle'',
        StackTrace = Some example_trace\<rparr>]"

definition example_chain_trailing :: heap where
  "example_chain_trailing =
     [\<lparr>Inner = ErrorPtr (Some 1), Message = ''outer'', StackTrace = None\<rparr>,
      \<lparr>Inner = ErrorPtr (Some 2), Message = ''middle'', StackTrace = None\<rparr>,
      \<lparr>Inner = NilError, Message = [], StackTrace = Some example_trace\<rparr>]"

text \<open>Chains of nodes with empty messages.\<close>

definition example_empty_chain :: heap where
  "example_empty_chain =
     [\<lparr>Inner = ErrorPtr (Some 1), Message = [], StackTrace = None\<rparr>,
      \<lparr>Inner = ErrorPtr (Some 2), Message = [], StackTrace = None\<rparr>,
      \<lparr>Inner = Opaque (Some (Return [])), Message = [], StackTrace = Some []\<rparr>]"

definition example_empty_wrappers :: heap where
  "example_empty_wrappers =
     [\<lparr>Inner = NilError, Message = [], StackTrace = None\<rparr>,
      \<lparr>Inner = Opaque (Some (Return ''zxcvzxcv'')), Message = [], StackTrace = Some example_trace\<rparr>,
      \<lparr>Inner = ErrorPtr (Some 3), Message = [], StackTrace = None\<rparr>,
      \<lparr>Inner = ErrorPtr (Some 4), Message = [], StackTrace = None\<rparr>,
      \<lparr>Inner = NilError, Message = ''inner'', StackTrace = Some example_trace\<rparr>]"

text \<open>The store after \<^verbatim>\<open>Wrap(New(""), "a")\<close>, started from the empty store.\<close>

definition example_wrapped_empty :: heap where
  "example_wrapped_empty =
     [\<lparr>Inner = NilError, Message = [], StackTrace = Some example_trace\<rparr>,
      \<lparr>Inner = ErrorPtr (Some 2), Message = ''a'', StackTrace = None\<rparr>,
      \<lparr>Inner = NilError, Message = [], StackTrace = Some example_trace\<rparr>]"

text \<open>A node whose inner error is a foreign error with a panicking \<^verbatim>\<open>Error()\<close>.\<close>

definition example_foreign_panics :: heap where
  "example_foreign_panics =
     [\<lparr>Inner = Opaque (Some Panic), Message = ''outer'', StackTrace = None\<rparr>]"

section \<open>Properties\<close>

subsection \<open>Path trimming\<close>

lemma LastIndex_absent: "c \<notin> set s \<Longrightarrow> LastIndex s c = -1"
  by (induction s) (auto simp: Let_def)

lemma LastIndex_present:
  "c \<in> set s \<Longrightarrow> \<exists>pre suf. s = pre @ c # suf \<and> c \<notin> set suf \<and> LastIndex s c = int (length pre)"
proof (induction s)
  case Nil
  then show ?case by simp
next
  case (Cons x xs)
  show ?case
  proof (cases "c \<in> set xs")
    case True
    then obtain pre suf where "xs = pre @ c # suf" "c \<notin> set suf" "LastIndex xs c = int (length pre)"
      using Cons.IH by blast
    then have "x # xs = (x # pre) @ c # suf \<and> c \<notin> set suf \<and> LastIndex (x # xs) c = int (length (x # pre))"
      by (simp add: Let_def)
    then show ?thesis by blast
  next
    case False
    with Cons.prems have "x = c" by simp
    with False have "x # xs = [] @ c # xs \<and> c \<notin> set xs \<and> LastIndex (x # xs) c = int (length ([]::string))"
      by (simp add: LastIndex_absent)
    then show ?thesis by blast
  qed
qed

lemma count_list_0: "c \<notin> set s \<Longrightarrow> count_list s c = 0"
  by (induction s) auto

lemma trimGOPATH_loop_step:
  "trimGOPATH_loop (Suc k) (p @ r) (int (length p)) =
     (if LastIndex p sep = -1 then -1 else trimGOPATH_loop k (p @ r) (LastIndex p sep))"
  by (simp add: Let_def sepLen_def)

lemma trimGOPATH_loop_few:
  "count_list p sep < k \<Longrightarrow> trimGOPATH_loop k (p @ r) (int (length p)) = -1"
proof (induction k arbitrary: p r)
  case 0
  then show ?case by simp
next
  case (Suc k)
  show ?case
  proof (cases "sep \<in> set p")
    case False
    then have "LastIndex p sep = -1" by (rule LastIndex_absent)
    then show ?thesis by (simp only: trimGOPATH_loop_step) simp
  next
    case True
    then obtain pre suf where ps: "p = pre @ sep # suf" "sep \<notin> set suf" "LastIndex p sep = int (length pre)"
      using LastIndex_present by blast
    from ps Suc.prems have "count_list pre sep < k" by simp
    then have "trimGOPATH_loop k (pre @ (sep # suf @ r)) (int (length pre)) = -1"
      by (rule Suc.IH)
    with ps show ?thesis by (simp only: trimGOPATH_loop_step) simp
  qed
qed

lemma trimGOPATH_loop_enough:
  "0 < k \<Longrightarrow> k \<le> count_list p sep \<Longrightarrow>
   \<exists>p' s'. p = p' @ sep # s' \<and> count_list s' sep = k - 1 \<and>
            trimGOPATH_loop k (p @ r) (int (length p)) = int (length p')"
proof (induction k arbitrary: p r)
  case 0
  then show ?case by simp
next
  case (Suc k)
  from Suc.prems have "sep \<in> set p"
    using count_list_0 [of sep p] by fastforce
  then obtain pre suf where ps: "p = pre @ sep # suf" "sep \<notin> set suf" "LastIndex p sep = int (length pre)"
    using LastIndex_present by blast
  have step: "trimGOPATH_loop (Suc k) (p @ r) (int (length p)) =
              trimGOPATH_loop k (pre @ (sep # suf @ r)) (int (length pre))"
    using ps by (simp only: trimGOPATH_loop_step) simp
  show ?case
  proof (cases k)
    case 0
    with ps step have "p = pre @ sep # suf \<and> count_list suf sep = Suc k - 1 \<and>
        trimGOPATH_loop (Suc k) (p @ r) (int (length p)) = int (length pre)"
      by (simp add: count_list_0)
    then show ?thesis by blast
  next
    case (Suc j)
    from ps Suc.prems have "k \<le> count_list pre sep" by (simp add: count_list_0)
    moreover from Suc have "0 < k" by simp
    ultimately obtain p' s' where IH: "pre = p' @ sep # s'" "count_list s' sep = k - 1"
        "trimGOPATH_loop k (pre @ (sep # suf @ r)) (int (length pre)) = int (length p')"
      using Suc.IH [of pre "sep # suf @ r"] by blast
    with ps step \<open>0 < k\<close> have "p = p' @ sep # (s' @ sep # suf) \<and>
        count_list (s' @ sep # suf) sep = Suc k - 1 \<and>
        trimGOPATH_loop (Suc k) (p @ r) (int (length p)) = int (length p')"
      by (simp add: count_list_0)
    then show ?thesis by blast
  qed
qed

text \<open>
  C4. For a function name with \<open>s\<close> separators: a file path with at least \<open>s + 2\<close>
  separators is cut to the suffix that follows the \<open>(s + 2)\<close>-th separator from the
  end, that is, the suffix after a separator that itself still holds exactly \<open>s + 1\<close>
  separators; a path with fewer separators comes back as it is.
\<close>

theorem trimGOPATH_suffix:
  "(Count name sep + 2 \<le> Count file sep \<longrightarrow>
      (\<exists>pre suf. file = pre @ sep # suf \<and> Count suf sep = Count name sep + 1 \<and>
                 trimGOPATH name file = suf)) \<and>
   (Count file sep < Count name sep + 2 \<longrightarrow> trimGOPATH name file = file)"
proof (intro conjI impI)
  assume "Count name sep + 2 \<le> Count file sep"
  then have "Count name sep + 2 \<le> count_list file sep" by (simp add: Count_def)
  then obtain p' s' where *: "file = p' @ sep # s'" "count_list s' sep = Count name sep + 2 - 1"
      "trimGOPATH_loop (Count name sep + 2) (file @ []) (int (length file)) = int (length p')"
    using trimGOPATH_loop_enough [where k = "Count name sep + 2" and p = "file" and r = "[]"] by auto
  then have "file = p' @ sep # s' \<and> Count s' sep = Count name sep + 1 \<and> trimGOPATH name file = s'"
    by (simp add: trimGOPATH_def Count_def sepLen_def nat_add_distrib)
  then show "\<exists>pre suf. file = pre @ sep # suf \<and> Count suf sep = Count name sep + 1 \<and>
                 trimGOPATH name file = suf"
    by blast
next
  assume "Count file sep < Count name sep + 2"
  then have "trimGOPATH_loop (Count name sep + 2) (file @ []) (int (length file)) = -1"
    by (intro trimGOPATH_loop_few) (simp add: Count_def)
  then show "trimGOPATH name file = file"
    by (simp add: trimGOPATH_def sepLen_def)
qed

theorem trimGOPATH_suffix_witness:
  "Count ''pkg/sub.Type.Method'' sep + 2 \<le> Count ''/home/user/src/pkg/sub/file.go'' sep \<and>
   (\<exists>pre suf. ''/home/user/src/pkg/sub/file.go'' = pre @ sep # suf \<and>
      Count suf sep = Count ''pkg/sub.Type.Method'' sep + 1 \<and>
      trimGOPATH ''pkg/sub.Type.Method'' ''/home/user/src/pkg/sub/file.go'' = suf) \<and>
   Count ''sub/file.go'' sep < Count ''pkg/sub.Type.Method'' sep + 2 \<and>
   trimGOPATH ''pkg/sub.Type.Method'' ''sub/file.go'' = ''sub/file.go''"
proof -
  have h1: "Count ''pkg/sub.Type.Method'' sep + 2 \<le> Count ''/home/user/src/pkg/sub/file.go'' sep"
    by (simp add: Count_def sep_def)
  have h2: "Count ''sub/file.go'' sep < Count ''pkg/sub.Type.Method'' sep + 2"
    by (simp add: Count_def sep_def)
  show ?thesis
    using h1 h2
      trimGOPATH_suffix [of "''pkg/sub.Type.Method''" "''/home/user/src/pkg/sub/file.go''"]
      trimGOPATH_suffix [of "''pkg/sub.Type.Method''" "''sub/file.go''"]
    by blast
qed

text \<open>The example of the comment in \<^verbatim>\<open>trimGOPATH\<close>.\<close>

lemma trimGOPATH_example:
  "trimGOPATH ''pkg/sub.Type.Method'' ''/home/user/src/pkg/sub/file.go'' = ''pkg/sub/file.go''"
  by code_simp

subsection \<open>Skip level\<close>

lemma AdjustCallerSkipLevel_ge_min:
  "sint minCallerSkipLevel \<le> sint (AdjustCallerSkipLevel l amt)"
  by (simp add: AdjustCallerSkipLevel_def Let_def)

text \<open>
  C7. After any sequence of calls of \<^verbatim>\<open>AdjustCallerSkipLevel\<close>, with any deltas
  (negative ones and ones that make the addition wrap around included), the stored skip
  level is at least \<^verbatim>\<open>minCallerSkipLevel\<close>.
\<close>

theorem AdjustCallerSkipLevel_clamped:
  "sint minCallerSkipLevel \<le> sint (foldl AdjustCallerSkipLevel callerSkipLevel_init amts)"
proof (induction amts rule: rev_induct)
  case Nil
  then show ?case by (simp add: callerSkipLevel_init_def)
next
  case (snoc x xs)
  show ?case by (simp add: AdjustCallerSkipLevel_ge_min)
qed

subsection \<open>Capturing and constructing\<close>

lemma resolved_Callers: "resolved stack \<Longrightarrow> resolved (Callers lvl stack)"
  by (auto simp: resolved_def Callers_def list_all_iff dest: in_set_takeD in_set_dropD)

lemma getStack_loop_resolved:
  "resolved pcs \<Longrightarrow>
   \<exists>st. getStack_loop st0 pcs = Return st \<and> (st = None \<longleftrightarrow> st0 = None \<and> pcs = [])"
proof (induction pcs arbitrary: st0)
  case Nil
  then show ?case by simp
next
  case (Cons pc pcs)
  then obtain pcFunc where pc: "pc = Some pcFunc" and rest: "resolved pcs"
    by (auto simp: resolved_def)
  let ?st1 = "append_frame st0 \<lparr>FunctionName = pc_name pcFunc, FileName = pc_file pcFunc,
      TrimmedFileName = trimGOPATH (pc_name pcFunc) (pc_file pcFunc), Line = pc_line pcFunc\<rparr>"
  from Cons.IH [OF rest, of ?st1] obtain st where
    st: "getStack_loop ?st1 pcs = Return st" "st = None \<longleftrightarrow> ?st1 = None \<and> pcs = []"
    by blast
  have "?st1 \<noteq> None" by (simp add: append_frame_def split: option.split)
  with st pc show ?case by (simp add: Let_def)
qed

lemma resolved_example: "resolved (Callers lvl example_stack)"
  by (rule resolved_Callers) (simp add: resolved_def example_stack_def)

lemma resolved_example_New: "resolved (Callers lvl example_stack_New)"
  by (rule resolved_Callers) (simp add: resolved_def example_stack_New_def)

lemma Callers_Nil: "Callers lvl stack = [] \<longleftrightarrow> length stack \<le> nat (sint lvl)"
  by (simp add: Callers_def maxStackDepth_def)

lemma getStack_resolved:
  "resolved (Callers lvl stack) \<Longrightarrow>
   \<exists>st. getStack lvl stack = Return st \<and> (st = None \<longleftrightarrow> length stack \<le> nat (sint lvl))"
  using getStack_loop_resolved [of "Callers lvl stack" None]
  by (simp add: getStack_def Callers_Nil)

lemma getStack_unresolved:
  "None \<in> set pcs \<Longrightarrow> getStack_loop st0 pcs = Panic"
  by (induction pcs arbitrary: st0) (auto simp: Let_def split: option.split)

lemma getStack_example: "getStack callerSkipLevel_init example_stack = Return (Some example_trace)"
  by (simp add: getStack_def Callers_def callerSkipLevel_init_def minCallerSkipLevel_def
      maxStackDepth_def example_stack_def example_trace_def append_frame_def Let_def)
     code_simp

lemma getStack_example_New:
  "getStack callerSkipLevel_init example_stack_New = Return (Some example_trace)"
  by (simp add: getStack_def Callers_def callerSkipLevel_init_def minCallerSkipLevel_def
      maxStackDepth_def example_stack_New_def example_trace_def append_frame_def Let_def)
     code_simp

lemma Wrap_ErrorPtr:
  "a < length h \<Longrightarrow>
   Wrap lvl stack h (ErrorPtr (Some a)) m =
     Return (h @ [\<lparr>Inner = ErrorPtr (Some (Suc (length h))), Message = m, StackTrace = None\<rparr>, h ! a],
             ErrorPtr (Some (length h)))"
  by (simp add: Wrap_def wrapErr_def deref_def Let_def nth_append)

lemma Wrap_Opaque:
  "getStack lvl stack = Return st \<Longrightarrow>
   Wrap lvl stack h (Opaque r) m =
     Return (h @ [\<lparr>Inner = Opaque r, Message = m, StackTrace = st\<rparr>], ErrorPtr (Some (length h)))"
  by (simp add: Wrap_def wrapErr_def Let_def)

lemma Wrap_NilError:
  "getStack lvl stack = Return st \<Longrightarrow>
   Wrap lvl stack h NilError m =
     Return (h @ [\<lparr>Inner = NilError, Message = m, StackTrace = st\<rparr>], ErrorPtr (Some (length h)))"
  by (simp add: Wrap_def wrapErr_def Let_def)

lemma Wrap_nil_pointer: "Wrap lvl stack h (ErrorPtr None) m = Panic"
  by (simp add: Wrap_def wrapErr_def deref_def Let_def)

lemma New_eq:
  "getStack lvl stack = Return st \<Longrightarrow>
   New lvl stack h m =
     Return (h @ [\<lparr>Inner = NilError, Message = m, StackTrace = st\<rparr>], ErrorPtr (Some (length h)))"
  by (simp add: New_def newErr_def)

text \<open>
  What holds of the stack-trace policy of \<^verbatim>\<open>Wrap\<close>: the wrapper of an \<^verbatim>\<open>*Error\<close>
  gets no trace; the wrapper of a foreign error gets what \<^verbatim>\<open>getStack\<close> returns, which
  is nil exactly when no frame lies beyond the skip level.
\<close>

lemma Wrap_ErrorPtr_no_trace:
  "a < length h \<Longrightarrow>
   \<exists>h'. Wrap lvl stack h (ErrorPtr (Some a)) m = Return (h', ErrorPtr (Some (length h))) \<and>
        StackTrace (h' ! length h) = None"
  by (simp add: Wrap_ErrorPtr)

lemma Wrap_Opaque_trace:
  "resolved (Callers lvl stack) \<Longrightarrow>
   \<exists>h'. Wrap lvl stack h (Opaque r) m = Return (h', ErrorPtr (Some (length h))) \<and>
        Inner (h' ! length h) = Opaque r \<and>
        (StackTrace (h' ! length h) = None \<longleftrightarrow> length stack \<le> nat (sint lvl))"
proof -
  assume "resolved (Callers lvl stack)"
  then obtain st where st: "getStack lvl stack = Return st"
      "st = None \<longleftrightarrow> length stack \<le> nat (sint lvl)"
    using getStack_resolved by blast
  then show ?thesis by (simp add: Wrap_Opaque)
qed

text \<open>
  The older \<^verbatim>\<open>getStack\<close> (second half of part\_002) starts from
  \<^verbatim>\<open>&StackTrace{}\<close> and never returns nil.
\<close>

lemma getStack_loop_Some: "getStack_loop (Some fs) pcs = Return st \<Longrightarrow> st \<noteq> None"
  by (induction pcs arbitrary: fs)
     (auto simp: Let_def append_frame_def split: option.splits)

lemma old_getStack_not_nil: "old_getStack lvl stack = Return st \<Longrightarrow> st \<noteq> None"
  unfolding old_getStack_def by (rule getStack_loop_Some)

text \<open>
  C2. Where the claim fails: \<^verbatim>\<open>New\<close> is wrapped by a helper of two levels somewhere
  in the program, so the initialisation calls \<^verbatim>\<open>AdjustCallerSkipLevel(2)\<close>, as the
  comment of that function asks for; the function a goroutine was started with calls
  \<^verbatim>\<open>Wrap\<close> on a foreign error. The six frames of the call stack are all skipped,
  \<^verbatim>\<open>getStack\<close> returns its nil slice untouched, and the wrapper of the foreign error
  has a nil \<^verbatim>\<open>StackTrace\<close>, where the claim and the comment of \<^verbatim>\<open>Wrap\<close> have a
  captured trace.
\<close>

theorem Wrap_opaque_trace_nil:
  "Wrap (AdjustCallerSkipLevel callerSkipLevel_init 2) example_goroutine_stack []
        (Opaque (Some (Return ''inner''))) ''outer'' =
     Return ([\<lparr>Inner = Opaque (Some (Return ''inner'')), Message = ''outer'', StackTrace = None\<rparr>],
             ErrorPtr (Some 0))"
proof -
  have "getStack (AdjustCallerSkipLevel callerSkipLevel_init 2) example_goroutine_stack = Return None"
    by (simp add: getStack_def Callers_def example_goroutine_stack_def AdjustCallerSkipLevel_def
        callerSkipLevel_init_def minCallerSkipLevel_def)
  then show ?thesis by (simp add: Wrap_Opaque)
qed

subsection \<open>Message-only rendering\<close>

lemma bind_result_simps [simp]:
  "bind_result None f = None"
  "bind_result (Some Panic) f = Some Panic"
  "bind_result (Some (Return x)) f = f x"
  by (simp_all add: bind_result_def)

lemma bind_result_Return [simp]: "bind_result m (\<lambda>s. Some (Return s)) = m"
  by (simp add: bind_result_def split: option.split result.split)

lemma error_message_only:
  "error (Suc fuel) h e depth sp False =
     (case deref h e of Panic \<Rightarrow> Some Panic
      | Return E \<Rightarrow>
          (case Inner E of
             NilError \<Rightarrow> Some (Return (Message E))
           | ErrorPtr inner \<Rightarrow>
               (case isZero h inner of Panic \<Rightarrow> Some Panic
                | Return zero \<Rightarrow>
                    if zero then Some (Return (Message E))
                    else bind_result (error fuel h inner (depth + 1) sp False)
                           (\<lambda>s. Some (Return (pad (Message E) sp @ s))))
           | Opaque r \<Rightarrow> bind_result r (\<lambda>s. Some (Return (pad (Message E) sp @ s)))))"
  by (simp add: bind_result_def pad_def Let_def
      split: result.split error_iface.split option.split)

declare error.simps(2) [simp del]

lemma message_eq_error: "message fuel h e depth = error fuel h e depth '': '' False"
proof (induction fuel arbitrary: e depth)
  case 0
  then show ?case by simp
next
  case (Suc fuel)
  show ?case
    unfolding error_message_only
    by (simp add: Suc pad_def Let_def split: result.split error_iface.split)
qed

lemma error_depth_irrelevant:
  "error fuel h e depth sp False = error fuel h e depth' sp False"
proof (induction fuel arbitrary: e depth depth')
  case 0
  then show ?case by simp
next
  case (Suc fuel)
  have "\<And>inner. error fuel h inner (depth + 1) sp False = error fuel h inner (depth' + 1) sp False"
    by (rule Suc)
  then show ?case
    unfolding error_message_only by (simp split: result.split error_iface.split)
qed

lemma zero_node_iff:
  "zero_node E \<longleftrightarrow> Inner E = NilError \<and> Message E = [] \<and> StackTrace E = None"
  by (cases E) (auto simp: zero_node_def)

lemma isZero_zero_node: "b < length h \<Longrightarrow> isZero h (Some b) = Return (zero_node (h ! b))"
  by (simp add: isZero_def deref_def zero_node_iff)

lemma chain_hd: "chain h (a # as) \<Longrightarrow> a < length h"
  by (cases as) simp_all

lemma chain_ends_tl:
  assumes "chain_ends h (a # b # as) t"
  shows "chain_ends h (b # as) t"
proof -
  have l: "last (a # b # as) = last (b # as)" by simp
  show ?thesis
    using assms unfolding chain_ends_def l Let_def
    by (cases "Inner (h ! last (b # as))") (simp_all del: last.simps)
qed

lemma chain_second_not_zero:
  assumes "chain h (a # b # as)" and "chain_ends h (a # b # as) t"
  shows "\<not> zero_node (h ! b)"
proof (cases as)
  case Nil
  with assms(2) show ?thesis
    by (auto simp: chain_ends_def Let_def zero_node_iff split: error_iface.splits)
next
  case (Cons c cs)
  with assms(1) have "Inner (h ! b) = ErrorPtr (Some c)" by simp
  then show ?thesis by (simp add: zero_node_iff)
qed

lemma joinChain_Cons2:
  "joinChain (m # n # ms) t = m @ (if m = [] then [] else '': '') @ joinChain (n # ms) t"
  by (cases t) simp_all

lemma joinChain_single:
  "joinChain [m] t = (case t of None \<Rightarrow> m | Some s \<Rightarrow> m @ (if m = [] then [] else '': '') @ s)"
  by (cases t) simp_all

lemma error_chain:
  "chain h as \<Longrightarrow> as \<noteq> [] \<Longrightarrow> chain_ends h as t \<Longrightarrow>
   error (length as + k) h (Some (hd as)) depth '': '' False =
     Some (Return (joinChain (map (\<lambda>a. Message (h ! a)) as) t))"
proof (induction h as arbitrary: depth rule: chain.induct)
  case (1 h)
  then show ?case by simp
next
  case (2 h a)
  then show ?case
    by (auto simp add: error_message_only deref_def chain_ends_def Let_def isZero_zero_node
        joinChain_single pad_def
        split: error_iface.splits option.splits)
next
  case (3 h a b as)
  have b: "b < length h" using "3.prems"(1) by (auto dest: chain_hd)
  have nz: "isZero h (Some b) = Return False"
    using chain_second_not_zero [OF "3.prems"(1,3)] b by (simp add: isZero_zero_node)
  have IH: "error (length (b # as) + k) h (Some b) (depth + 1) '': '' False =
     Some (Return (joinChain (map (\<lambda>a. Message (h ! a)) (b # as)) t))"
    using "3.prems"(1) chain_ends_tl [OF "3.prems"(3)] "3.IH" [of "depth + 1"] by simp
  have "error (Suc (length (b # as) + k)) h (Some a) depth '': '' False =
     Some (Return (pad (Message (h ! a)) '': '' @ joinChain (map (\<lambda>a. Message (h ! a)) (b # as)) t))"
    unfolding error_message_only using "3.prems"(1) nz IH
    by (simp add: deref_def)
  then show ?case by (simp add: joinChain_Cons2 pad_def)
qed

text \<open>
  C1 (as amended). For non-empty messages \<open>m1\<close> and \<open>m2\<close>,
  \<^verbatim>\<open>Wrap(New(m2), m1).Error()\<close> is \<open>m1 @ '': '' @ m2\<close>. In general, \<^verbatim>\<open>Error()\<close>
  concatenates the messages of the nodes along the inner chain, and the text of a foreign
  error at its end, and writes the separator \<^verbatim>\<open>": "\<close> after every non-empty message
  that something follows, also when what follows renders to the empty string; it stops
  at the first inner node that is the zero \<^verbatim>\<open>Error\<close>, which adds nothing.
\<close>

theorem message_only_rendering:
  "(resolved (Callers lvl stack) \<and> m1 \<noteq> [] \<and> m2 \<noteq> [] \<longrightarrow>
      (\<exists>h1 c h2 w. New lvl stack h m2 = Return (h1, c) \<and>
                   Wrap lvl' stack' h1 c m1 = Return (h2, ErrorPtr w) \<and>
                   Error (Suc (Suc fuel)) h2 w = Some (Return (m1 @ '': '' @ m2)))) \<and>
   (chain g as \<and> as \<noteq> [] \<and> chain_ends g as t \<longrightarrow>
      Error (length as + k) g (Some (hd as)) =
        Some (Return (joinChain (map (\<lambda>a. Message (g ! a)) as) t)))"
proof (intro conjI impI)
  assume hyp: "resolved (Callers lvl stack) \<and> m1 \<noteq> [] \<and> m2 \<noteq> []"
  then obtain st where st: "getStack lvl stack = Return st"
    using getStack_resolved by blast
  let ?n = "\<lparr>Inner = NilError, Message = m2, StackTrace = st\<rparr>"
  let ?h2 = "(h @ [?n]) @ [\<lparr>Inner = ErrorPtr (Some (Suc (length (h @ [?n])))), Message = m1,
                StackTrace = None\<rparr>, (h @ [?n]) ! length h]"
  have n: "New lvl stack h m2 = Return (h @ [?n], ErrorPtr (Some (length h)))"
    using st by (rule New_eq)
  have w: "Wrap lvl' stack' (h @ [?n]) (ErrorPtr (Some (length h))) m1 =
             Return (?h2, ErrorPtr (Some (Suc (length h))))"
    by (simp add: Wrap_ErrorPtr)
  have "Error (Suc (Suc fuel)) ?h2 (Some (Suc (length h))) = Some (Return (m1 @ '': '' @ m2))"
    using hyp by (simp add: Error_def error_message_only deref_def isZero_def nth_append pad_def)
  with n w show "\<exists>h1 c h2 w. New lvl stack h m2 = Return (h1, c) \<and>
                   Wrap lvl' stack' h1 c m1 = Return (h2, ErrorPtr w) \<and>
                   Error (Suc (Suc fuel)) h2 w = Some (Return (m1 @ '': '' @ m2))"
    by blast
next
  assume "chain g as \<and> as \<noteq> [] \<and> chain_ends g as t"
  then show "Error (length as + k) g (Some (hd as)) =
        Some (Return (joinChain (map (\<lambda>a. Message (g ! a)) as) t))"
    unfolding Error_def by (intro error_chain) simp_all
qed

theorem message_only_rendering_witness:
  "resolved (Callers callerSkipLevel_init example_stack_New) \<and>
   (\<exists>h1 c h2 w. New callerSkipLevel_init example_stack_New [] ''inner'' = Return (h1, c) \<and>
      Wrap callerSkipLevel_init example_stack h1 c ''outer'' = Return (h2, ErrorPtr w) \<and>
      Error (Suc (Suc 0)) h2 w = Some (Return ''outer: inner'')) \<and>
   chain example_chain_zero_end [0, 1, 2] \<and> chain_ends example_chain_zero_end [0, 1, 2] None \<and>
   Error (length [0, 1, 2 :: nat] + 0) example_chain_zero_end (Some 0) =
     Some (Return ''outer: inner'') \<and>
   chain example_chain_foreign_end [0, 1] \<and>
   chain_ends example_chain_foreign_end [0, 1] (Some ''inner'') \<and>
   Error (length [0, 1 :: nat] + 0) example_chain_foreign_end (Some 0) =
     Some (Return ''outer: middle: inner'')"
proof -
  have h1: "resolved (Callers callerSkipLevel_init example_stack_New) \<and>
            ''outer'' \<noteq> [] \<and> ''inner'' \<noteq> []"
    by (simp add: resolved_example_New)
  have h2: "chain example_chain_zero_end [0, 1, 2] \<and> [0, 1, 2 :: nat] \<noteq> [] \<and>
            chain_ends example_chain_zero_end [0, 1, 2] None"
    by (simp add: example_chain_zero_end_def chain_ends_def zero_node_def)
  have h3: "chain example_chain_foreign_end [0, 1] \<and> [0, 1 :: nat] \<noteq> [] \<and>
            chain_ends example_chain_foreign_end [0, 1] (Some ''inner'')"
    by (simp add: example_chain_foreign_end_def chain_ends_def)
  have j2: "joinChain (map (\<lambda>a. Message (example_chain_zero_end ! a)) [0, 1, 2]) None =
            ''outer: inner''"
    by (simp add: example_chain_zero_end_def)
  have j3: "joinChain (map (\<lambda>a. Message (example_chain_foreign_end ! a)) [0, 1]) (Some ''inner'') =
            ''outer: middle: inner''"
    by (simp add: example_chain_foreign_end_def)
  note inst2 = message_only_rendering [where ?m1.0 = "''outer''" and ?m2.0 = "''inner''"
      and h = "[]" and lvl = callerSkipLevel_init and lvl' = callerSkipLevel_init
      and stack = example_stack_New and stack' = example_stack and fuel = 0
      and g = example_chain_zero_end and as = "[0, 1, 2]" and k = 0 and t = None]
  note inst3 = message_only_rendering [where ?m1.0 = "''outer''" and ?m2.0 = "''inner''"
      and h = "[]" and lvl = callerSkipLevel_init and lvl' = callerSkipLevel_init
      and stack = example_stack_New and stack' = example_stack and fuel = 0
      and g = example_chain_foreign_end and as = "[0, 1]" and k = 0 and t = "Some ''inner''"]
  from inst2 h1 have c1:
    "\<exists>h1 c h2 w. New callerSkipLevel_init example_stack_New [] ''inner'' = Return (h1, c) \<and>
      Wrap callerSkipLevel_init example_stack h1 c ''outer'' = Return (h2, ErrorPtr w) \<and>
      Error (Suc (Suc 0)) h2 w = Some (Return ''outer: inner'')"
    by simp
  from inst2 h2 j2 have c2:
    "Error (length [0, 1, 2 :: nat] + 0) example_chain_zero_end (Some 0) =
       Some (Return ''outer: inner'')"
    by simp
  from inst3 h3 j3 have c3:
    "Error (length [0, 1 :: nat] + 0) example_chain_foreign_end (Some 0) =
       Some (Return ''outer: middle: inner'')"
    by simp
  show ?thesis
    using h1 h2 h3 c1 c2 c3 by simp
qed

text \<open>
  Two chains that the claim's general sentence does not fit. In the first the last
  message is empty and \<^verbatim>\<open>Error()\<close> ends in a separator that no message follows (the
  last node has a trace, as every node made by \<^verbatim>\<open>New\<close>, and so is not the zero
  \<^verbatim>\<open>Error\<close>): the non-empty messages joined by the separator would be
  \<^verbatim>\<open>"outer: middle"\<close>. In the second, from address 2 on, two nodes with empty messages
  wrap a third: no separator is written for them, though none of the three is the zero
  \<^verbatim>\<open>Error\<close>.
\<close>

theorem separator_not_between_messages:
  "Error 3 example_chain_trailing (Some 0) = Some (Return ''outer: middle: '') \<and>
   Error 3 example_empty_wrappers (Some 2) = Some (Return ''inner'')"
  by (simp add: Error_def example_chain_trailing_def example_empty_wrappers_def
      error_message_only deref_def isZero_def pad_def eval_nat_numeral)

lemma error_chain_empty:
  "chain h as \<Longrightarrow> as \<noteq> [] \<Longrightarrow> \<forall>a \<in> set as. Message (h ! a) = [] \<Longrightarrow>
   Inner (h ! last as) = NilError \<or> Inner (h ! last as) = Opaque (Some (Return [])) \<Longrightarrow>
   error (length as + k) h (Some (hd as)) depth sp False = Some (Return [])"
proof (induction h as arbitrary: depth rule: chain.induct)
  case (1 h)
  then show ?case by simp
next
  case (2 h a)
  then show ?case
    by (auto simp add: error_message_only deref_def pad_def)
next
  case (3 h a b as)
  have b: "b < length h" using "3.prems"(1) by (auto dest: chain_hd)
  have IH: "error (length (b # as) + k) h (Some b) (depth + 1) sp False = Some (Return [])"
    using "3.prems" "3.IH" [of "depth + 1"] by simp
  have "error (Suc (length (b # as) + k)) h (Some a) depth sp False = Some (Return [])"
    unfolding error_message_only using "3.prems" b IH
    by (simp add: deref_def isZero_def pad_def)
  then show ?case by simp
qed

lemma error_empty_message_pointer:
  assumes "a < length h" and "Message (h ! a) = []" and "Inner (h ! a) = ErrorPtr q"
  shows "error (Suc (Suc fuel)) h (Some a) depth sp False = error (Suc fuel) h q depth' sp False"
proof (cases "isZero h q")
  case Panic
  then have "deref h q = Panic" by (simp add: isZero_def split: result.splits)
  with assms Panic show ?thesis
    by (simp add: error_message_only [of "Suc fuel"] error_message_only [of fuel] deref_def)
next
  case (Return zero)
  then obtain E where E: "deref h q = Return E"
      "zero \<longleftrightarrow> Inner E = NilError \<and> Message E = [] \<and> StackTrace E = None"
    by (auto simp: isZero_def split: result.splits)
  show ?thesis
  proof (cases zero)
    case True
    with assms Return E show ?thesis
      by (simp add: error_message_only [of "Suc fuel"] error_message_only [of fuel] deref_def)
  next
    case False
    with assms Return show ?thesis
      using error_depth_irrelevant [of "Suc fuel" h q "depth + 1" sp depth']
      by (simp add: error_message_only [of "Suc fuel" h "Some a"] deref_def pad_def)
  qed
qed

text \<open>
  C6 (as amended). \<^verbatim>\<open>New("").Error()\<close> and \<^verbatim>\<open>Wrap(New(""), "").Error()\<close> are the
  empty string, and a chain whose messages are all empty renders to the empty string. A
  node with an empty message writes no text and no separator of its own: it renders
  exactly as its inner chain does, to the empty string without an inner error, to the
  text of a foreign inner error, and to what the inner \<^verbatim>\<open>*Error\<close> renders to.
\<close>

theorem empty_messages:
  "(resolved (Callers lvl stack) \<longrightarrow>
      (\<exists>h1 e. New lvl stack h [] = Return (h1, ErrorPtr e) \<and>
              Error (Suc fuel) h1 e = Some (Return [])) \<and>
      (\<exists>h1 c h2 w. New lvl stack h [] = Return (h1, c) \<and>
              Wrap lvl' stack' h1 c [] = Return (h2, ErrorPtr w) \<and>
              Error (Suc (Suc fuel)) h2 w = Some (Return []))) \<and>
   (chain g as \<and> as \<noteq> [] \<and> (\<forall>a \<in> set as. Message (g ! a) = []) \<and>
      (Inner (g ! last as) = NilError \<or> Inner (g ! last as) = Opaque (Some (Return []))) \<longrightarrow>
      Error (length as + k) g (Some (hd as)) = Some (Return [])) \<and>
   (a < length g \<and> Message (g ! a) = [] \<longrightarrow>
      (Inner (g ! a) = NilError \<longrightarrow> Error (Suc fuel') g (Some a) = Some (Return [])) \<and>
      (\<forall>r. Inner (g ! a) = Opaque r \<longrightarrow> Error (Suc fuel') g (Some a) = r) \<and>
      (\<forall>q. Inner (g ! a) = ErrorPtr q \<longrightarrow>
         Error (Suc (Suc fuel')) g (Some a) = Error (Suc fuel') g q))"
proof (intro conjI impI allI)
  assume "resolved (Callers lvl stack)"
  then obtain st where st: "getStack lvl stack = Return st"
    using getStack_resolved by blast
  let ?n = "\<lparr>Inner = NilError, Message = [], StackTrace = st\<rparr>"
  let ?h2 = "(h @ [?n]) @ [\<lparr>Inner = ErrorPtr (Some (Suc (length (h @ [?n])))), Message = [],
                StackTrace = None\<rparr>, (h @ [?n]) ! length h]"
  have n: "New lvl stack h [] = Return (h @ [?n], ErrorPtr (Some (length h)))"
    using st by (rule New_eq)
  have r1: "Error (Suc fuel) (h @ [?n]) (Some (length h)) = Some (Return [])"
    by (simp add: Error_def error_message_only deref_def)
  from n r1 show "\<exists>h1 e. New lvl stack h [] = Return (h1, ErrorPtr e) \<and>
              Error (Suc fuel) h1 e = Some (Return [])"
    by blast
  have w: "Wrap lvl' stack' (h @ [?n]) (ErrorPtr (Some (length h))) [] =
             Return (?h2, ErrorPtr (Some (Suc (length h))))"
    by (simp add: Wrap_ErrorPtr)
  have "Error (Suc (Suc fuel)) ?h2 (Some (Suc (length h))) = Some (Return [])"
    by (simp add: Error_def error_message_only deref_def isZero_def nth_append pad_def)
  with n w show "\<exists>h1 c h2 w. New lvl stack h [] = Return (h1, c) \<and>
              Wrap lvl' stack' h1 c [] = Return (h2, ErrorPtr w) \<and>
              Error (Suc (Suc fuel)) h2 w = Some (Return [])"
    by blast
next
  assume "chain g as \<and> as \<noteq> [] \<and> (\<forall>a \<in> set as. Message (g ! a) = []) \<and>
      (Inner (g ! last as) = NilError \<or> Inner (g ! last as) = Opaque (Some (Return [])))"
  then show "Error (length as + k) g (Some (hd as)) = Some (Return [])"
    unfolding Error_def by (intro error_chain_empty) simp_all
next
  assume "a < length g \<and> Message (g ! a) = []" and "Inner (g ! a) = NilError"
  then show "Error (Suc fuel') g (Some a) = Some (Return [])"
    by (simp add: Error_def error_message_only deref_def)
next
  fix r
  assume "a < length g \<and> Message (g ! a) = []" and "Inner (g ! a) = Opaque r"
  then show "Error (Suc fuel') g (Some a) = r"
    by (simp add: Error_def error_message_only deref_def pad_def)
next
  fix q
  assume "a < length g \<and> Message (g ! a) = []" and "Inner (g ! a) = ErrorPtr q"
  then show "Error (Suc (Suc fuel')) g (Some a) = Error (Suc fuel') g q"
    unfolding Error_def by (intro error_empty_message_pointer) simp_all
qed

theorem empty_messages_witness:
  "resolved (Callers callerSkipLevel_init example_stack_New) \<and>
   (\<exists>h1 c h2 w. New callerSkipLevel_init example_stack_New [] [] = Return (h1, c) \<and>
      Wrap callerSkipLevel_init example_stack h1 c [] = Return (h2, ErrorPtr w) \<and>
      Error (Suc (Suc 0)) h2 w = Some (Return [])) \<and>
   chain example_empty_chain [0, 1, 2] \<and>
   Error (length [0, 1, 2 :: nat] + 0) example_empty_chain (Some 0) = Some (Return []) \<and>
   Error (Suc 0) example_empty_wrappers (Some 0) = Some (Return []) \<and>
   Error (Suc 0) example_empty_wrappers (Some 1) = Some (Return ''zxcvzxcv'') \<and>
   Error (Suc (Suc 1)) example_empty_wrappers (Some 2) = Error (Suc 1) example_empty_wrappers (Some 3)"
proof -
  have h1: "resolved (Callers callerSkipLevel_init example_stack_New)"
    by (rule resolved_example_New)
  have h2: "chain example_empty_chain [0, 1, 2] \<and> [0, 1, 2 :: nat] \<noteq> [] \<and>
            (\<forall>a \<in> set [0, 1, 2]. Message (example_empty_chain ! a) = []) \<and>
            (Inner (example_empty_chain ! last [0, 1, 2]) = NilError \<or>
             Inner (example_empty_chain ! last [0, 1, 2]) = Opaque (Some (Return [])))"
    by (simp add: example_empty_chain_def)
  have a0: "(0::nat) < length example_empty_wrappers \<and> Message (example_empty_wrappers ! 0) = []"
      "Inner (example_empty_wrappers ! 0) = NilError"
    by (simp_all add: example_empty_wrappers_def)
  have a1: "(1::nat) < length example_empty_wrappers \<and> Message (example_empty_wrappers ! 1) = []"
      "Inner (example_empty_wrappers ! 1) = Opaque (Some (Return ''zxcvzxcv''))"
    by (simp_all add: example_empty_wrappers_def)
  have a2: "(2::nat) < length example_empty_wrappers \<and> Message (example_empty_wrappers ! 2) = []"
      "Inner (example_empty_wrappers ! 2) = ErrorPtr (Some 3)"
    by (simp_all add: example_empty_wrappers_def)
  note inst0 = empty_messages [where g = example_empty_chain and as = "[0, 1, 2]" and k = 0
      and h = "[]" and fuel = 0 and lvl = callerSkipLevel_init and lvl' = callerSkipLevel_init
      and stack = example_stack_New and stack' = example_stack]
  from inst0 h1 have c1:
    "\<exists>h1 c h2 w. New callerSkipLevel_init example_stack_New [] [] = Return (h1, c) \<and>
      Wrap callerSkipLevel_init example_stack h1 c [] = Return (h2, ErrorPtr w) \<and>
      Error (Suc (Suc 0)) h2 w = Some (Return [])"
    by blast
  from inst0 h2 have c2:
    "Error (length [0, 1, 2 :: nat] + 0) example_empty_chain (Some (hd [0, 1, 2])) = Some (Return [])"
    by blast
  from empty_messages [where g = example_empty_wrappers and a = 0 and fuel' = 0] a0
  have c3: "Error (Suc 0) example_empty_wrappers (Some 0) = Some (Return [])"
    by blast
  from empty_messages [where g = example_empty_wrappers and a = 1 and fuel' = 0] a1
  have c4: "Error (Suc 0) example_empty_wrappers (Some 1) = Some (Return ''zxcvzxcv'')"
    by blast
  from empty_messages [where g = example_empty_wrappers and a = 2 and fuel' = 1] a2
  have c5: "Error (Suc (Suc 1)) example_empty_wrappers (Some 2) =
            Error (Suc 1) example_empty_wrappers (Some 3)"
    by blast
  show ?thesis
    using h1 h2 c1 c2 c3 c4 c5 by simp
qed

text \<open>
  \<^verbatim>\<open>Wrap(New(""), "a").Error()\<close> is \<^verbatim>\<open>"a: "\<close>: the inner node has an empty message
  and a stack trace, so it is not the zero \<^verbatim>\<open>Error\<close>, and the separator is written in
  front of its empty rendering.
\<close>

theorem empty_inner_keeps_separator:
  "New callerSkipLevel_init example_stack_New [] [] =
     Return ([\<lparr>Inner = NilError, Message = [], StackTrace = Some example_trace\<rparr>],
             ErrorPtr (Some 0)) \<and>
   Wrap callerSkipLevel_init example_stack
     [\<lparr>Inner = NilError, Message = [], StackTrace = Some example_trace\<rparr>] (ErrorPtr (Some 0)) ''a'' =
     Return (example_wrapped_empty, ErrorPtr (Some 1)) \<and>
   Error 2 example_wrapped_empty (Some 1) = Some (Return ''a: '')"
  by (simp add: New_eq [OF getStack_example_New] Wrap_ErrorPtr example_wrapped_empty_def Error_def
      numeral_2_eq_2 error_message_only deref_def isZero_def pad_def)

subsection \<open>Top-level helpers\<close>

text \<open>
  C10. \<^verbatim>\<open>PrintMessages\<close> and \<^verbatim>\<open>PrintWithStack\<close> return the empty string for the nil
  error, and for an error that is not an \<^verbatim>\<open>*Error\<close> what its own \<^verbatim>\<open>Error()\<close>
  returns (and they do whatever that call does, if it does not return).
\<close>

theorem Print_helpers_passthrough:
  "PrintMessages fuel h NilError = Some (Return []) \<and>
   PrintWithStack fuel h NilError = Some (Return []) \<and>
   PrintMessages fuel h (Opaque (Some (Return s))) = Some (Return s) \<and>
   PrintWithStack fuel h (Opaque (Some (Return s))) = Some (Return s) \<and>
   PrintMessages fuel h (Opaque r) = r \<and>
   PrintWithStack fuel h (Opaque r) = r"
  by (simp add: PrintMessages_def PrintWithStack_def)

subsection \<open>Stack traces and message-only output\<close>

lemma same_but_traces_nth:
  "same_but_traces h h' \<Longrightarrow> length h = length h' \<and>
     (\<forall>a < length h. Inner (h ! a) = Inner (h' ! a) \<and> Message (h ! a) = Message (h' ! a) \<and>
        (StackTrace (h ! a) = None \<longleftrightarrow> StackTrace (h' ! a) = None))"
  by (simp add: same_but_traces_def list_all2_conv_all_nth)

lemma same_but_traces_isZero:
  "same_but_traces h h' \<Longrightarrow> isZero h e = isZero h' e"
  using same_but_traces_nth [of h h']
  by (cases e) (auto simp: isZero_def deref_def)

lemma error_same_but_traces:
  "same_but_traces h h' \<Longrightarrow> error fuel h e depth sp False = error fuel h' e depth sp False"
proof (induction fuel arbitrary: e depth)
  case 0
  then show ?case by simp
next
  case (Suc fuel)
  note nth = same_but_traces_nth [OF Suc.prems]
  show ?case
  proof (cases e)
    case None
    then show ?thesis by (simp add: error_message_only deref_def)
  next
    case (Some a)
    show ?thesis
    proof (cases "a < length h")
      case False
      with Some nth show ?thesis by (simp add: error_message_only deref_def)
    next
      case True
      with nth have eq: "Inner (h ! a) = Inner (h' ! a)" "Message (h ! a) = Message (h' ! a)"
        "a < length h'" by auto
      show ?thesis
        unfolding error_message_only
        using Some True eq Suc.IH [OF Suc.prems] same_but_traces_isZero [OF Suc.prems]
        by (simp add: deref_def split: error_iface.split result.split)
    qed
  qed
qed

text \<open>
  C9 (as amended). Two chains that agree, node by node, on \<^verbatim>\<open>Message\<close> and
  \<^verbatim>\<open>Inner\<close> and on whether \<^verbatim>\<open>StackTrace\<close> is nil render to the same message-only
  string, whatever their traces hold: \<^verbatim>\<open>Error()\<close> of part\_000 and \<^verbatim>\<open>message\<close> of
  part\_001 read a trace only through the nil test of \<^verbatim>\<open>isZero\<close>.
\<close>

theorem message_only_ignores_trace_contents:
  "same_but_traces h h' \<longrightarrow>
     Error fuel h e = Error fuel h' e \<and> message fuel h e depth = message fuel h' e depth"
  by (simp add: Error_def message_eq_error error_same_but_traces)

theorem message_only_ignores_trace_contents_witness:
  "same_but_traces example_chain example_chain_other_traces \<and>
   Error 3 example_chain (Some 0) = Error 3 example_chain_other_traces (Some 0) \<and>
   message 3 example_chain (Some 0) 0 = message 3 example_chain_other_traces (Some 0) 0"
proof -
  have h: "same_but_traces example_chain example_chain_other_traces"
    by (simp add: same_but_traces_def example_chain_def example_chain_other_traces_def)
  show ?thesis
    using h message_only_ignores_trace_contents
      [of example_chain example_chain_other_traces 3 "Some 0" 0]
    by blast
qed

text \<open>
  Two nodes with the same message and the same (zero-valued) inner fields, whose inner
  nodes differ only in \<^verbatim>\<open>StackTrace\<close>: with a nil trace the inner node is the zero
  \<^verbatim>\<open>Error\<close> and is skipped, with an empty trace that is not nil it is rendered and the
  separator is written.
\<close>

theorem trace_presence_changes_message:
  "Error 2 [\<lparr>Inner = ErrorPtr (Some 1), Message = ''outer'', StackTrace = None\<rparr>,
            \<lparr>Inner = NilError, Message = [], StackTrace = None\<rparr>] (Some 0) =
     Some (Return ''outer'') \<and>
   Error 2 [\<lparr>Inner = ErrorPtr (Some 1), Message = ''outer'', StackTrace = None\<rparr>,
            \<lparr>Inner = NilError, Message = [], StackTrace = Some []\<rparr>] (Some 0) =
     Some (Return ''outer: '')"
  by (simp add: Error_def numeral_2_eq_2 error_message_only deref_def isZero_def pad_def)

subsection \<open>Error() and the stack trace\<close>

lemma drop_frames_same: "same_but_traces (drop_frames h) h"
  by (simp add: same_but_traces_def drop_frames_def list_all2_map1 list_all2_same)

lemma no_newline_nth:
  "no_newline h \<Longrightarrow> a < length h \<Longrightarrow>
   CHR 0x0A \<notin> set (Message (h ! a)) \<and>
   (\<forall>s. Inner (h ! a) = Opaque (Some (Return s)) \<longrightarrow> CHR 0x0A \<notin> set s)"
  by (auto simp: no_newline_def list_all_length)

lemma error_no_newline:
  "no_newline h \<Longrightarrow> CHR 0x0A \<notin> set sp \<Longrightarrow>
   error fuel h e depth sp False = Some (Return s) \<Longrightarrow> CHR 0x0A \<notin> set s"
proof (induction fuel arbitrary: e depth s)
  case 0
  then show ?case by simp
next
  case (Suc fuel)
  from Suc.prems(3) obtain a where a: "e = Some a" "a < length h"
    by (auto simp: error_message_only deref_def split: option.splits if_splits)
  note nn = no_newline_nth [OF Suc.prems(1) a(2)]
  show ?case
  proof (cases "Inner (h ! a)")
    case NilError
    with Suc.prems(3) a nn show ?thesis
      by (simp add: error_message_only deref_def)
  next
    case (Opaque r)
    with Suc.prems(3) a obtain t where t: "r = Some (Return t)" "s = pad (Message (h ! a)) sp @ t"
      by (auto simp: error_message_only deref_def bind_result_def
          split: option.splits result.splits)
    with Opaque Suc.prems(2) nn show ?thesis
      by (auto simp: pad_def split: if_splits)
  next
    case (ErrorPtr inner)
    show ?thesis
    proof (cases "isZero h inner")
      case Panic
      with Suc.prems(3) a ErrorPtr show ?thesis
        by (simp add: error_message_only deref_def)
    next
      case (Return zero)
      show ?thesis
      proof (cases zero)
        case True
        with Suc.prems(3) a ErrorPtr Return nn show ?thesis
          by (simp add: error_message_only deref_def)
      next
        case False
        with Suc.prems(3) a ErrorPtr Return obtain t where
          t: "error fuel h inner (depth + 1) sp False = Some (Return t)"
             "s = pad (Message (h ! a)) sp @ t"
          by (auto simp: error_message_only deref_def bind_result_def
              split: option.splits result.splits)
        from Suc.IH [OF Suc.prems(1,2) t(1)] have "CHR 0x0A \<notin> set t" .
        with t(2) nn Suc.prems(2) show ?thesis
          by (auto simp: pad_def split: if_splits)
      qed
    qed
  qed
qed

lemma error_leaf_with_trace:
  "a < length h \<Longrightarrow> Inner (h ! a) = NilError \<Longrightarrow> StackTrace (h ! a) = Some st \<Longrightarrow>
   error (Suc fuel) h (Some a) 0 sp True =
     Some (Return (Message (h ! a) @ [CHR 0x0A] @ StackTrace_String st))"
  by (simp add: error.simps deref_def pad_def writeStack_def Let_def)

text \<open>
  \<^verbatim>\<open>Error()\<close> of part\_000 (and of the first half of part\_002, which has the same
  text) is the message-only rendering: it is what \<^verbatim>\<open>Format\<close> prints for the flag
  \<^verbatim>\<open>-\<close>; emptying every stack trace of the store does not change it; it holds no line
  feed unless a message or a foreign error's text holds one; and for a node with a trace
  and no inner error it is the message alone, while \<^verbatim>\<open>Format\<close> without the flag
  writes the trace. \<^verbatim>\<open>Error()\<close> of part\_001 is \<^verbatim>\<open>message(0)\<close>, which
  \<open>message_eq_error\<close> shows to be the same function.
\<close>

lemma Error_is_message_only:
  "Error fuel h e = Format fuel h e True CHR ''v'' \<and>
   Error fuel (drop_frames h) e = Error fuel h e \<and>
   (no_newline h \<and> Error fuel h e = Some (Return s) \<longrightarrow> CHR 0x0A \<notin> set s) \<and>
   (a < length h \<and> Inner (h ! a) = NilError \<and> StackTrace (h ! a) = Some st \<longrightarrow>
      Error (Suc fuel) h (Some a) = Some (Return (Message (h ! a))) \<and>
      Format (Suc fuel) h (Some a) False CHR ''v'' =
        Some (Return (Message (h ! a) @ [CHR 0x0A] @ StackTrace_String st)))"
proof (intro conjI impI)
  show "Error fuel h e = Format fuel h e True CHR ''v''"
    by (simp add: Error_def Format_def)
  show "Error fuel (drop_frames h) e = Error fuel h e"
    unfolding Error_def by (rule error_same_but_traces) (rule drop_frames_same)
next
  assume "no_newline h \<and> Error fuel h e = Some (Return s)"
  then show "CHR 0x0A \<notin> set s"
    unfolding Error_def using error_no_newline [of h "'': ''" fuel e 0 s] by simp
next
  assume *: "a < length h \<and> Inner (h ! a) = NilError \<and> StackTrace (h ! a) = Some st"
  then show "Error (Suc fuel) h (Some a) = Some (Return (Message (h ! a)))"
    by (simp add: Error_def error_message_only deref_def)
  from * show "Format (Suc fuel) h (Some a) False CHR ''v'' =
        Some (Return (Message (h ! a) @ [CHR 0x0A] @ StackTrace_String st))"
    by (simp add: Format_def error_leaf_with_trace)
qed






text \<open>The same call on part\_000: the message alone.\<close>

lemma Error_New_example:
  "New callerSkipLevel_init example_stack_New [] ''My error!'' =
     Return ([\<lparr>Inner = NilError, Message = ''My error!'', StackTrace = Some example_trace\<rparr>],
             ErrorPtr (Some 0)) \<and>
   Error 1 [\<lparr>Inner = NilError, Message = ''My error!'', StackTrace = Some example_trace\<rparr>]
     (Some 0) = Some (Return ''My error!'')"
  by (simp add: New_eq [OF getStack_example_New] Error_def error_message_only deref_def)

subsection \<open>Returning without a panic\<close>

lemma length_Repeat: "length (Repeat s n) = n * length s"
  by (induction n) (simp_all add: Repeat_def)

lemma writeStack_colon: "\<exists>s. writeStack st depth '': '' b = Return s"
  by (simp add: writeStack_def slice_from_def length_Repeat Let_def)

lemma wellformed_deref: "wellformed n h e \<Longrightarrow> \<exists>E. deref h e = Return E"
  by (cases n) (auto split: result.splits)

lemma wellformed_isZero: "wellformed n h e \<Longrightarrow> \<exists>z. isZero h e = Return z"
  using wellformed_deref [of n h e] by (auto simp: isZero_def)

lemma error_wellformed:
  "wellformed n h e \<Longrightarrow> \<exists>s. error (n + k) h e depth '': '' ps = Some (Return s)"
proof (induction n arbitrary: e depth)
  case 0
  then show ?case by simp
next
  case (Suc n)
  from Suc.prems obtain E where E: "deref h e = Return E"
    using wellformed_deref by blast
  let ?b = "if Message E \<noteq> [] then pad [] padding @ Message E else []"
  let ?inner = "case Inner E of
               NilError \<Rightarrow> Some (Return ?b)
             | ErrorPtr inner \<Rightarrow>
                 bind_result (Some (isZero h inner)) (\<lambda>zero.
                   if \<not> zero
                   then bind_result (error (n + k) h inner (depth + 1) '': '' ps)
                          (\<lambda>s. Some (Return (pad ?b '': '' @ s)))
                   else Some (Return ?b))
             | Opaque Inner_Error \<Rightarrow>
                 bind_result Inner_Error (\<lambda>s. Some (Return (pad ?b '': '' @ s)))"
  have "\<exists>b. ?inner = Some (Return b)"
  proof (cases "Inner E")
    case NilError
    then show ?thesis by simp
  next
    case (Opaque r)
    with Suc.prems E obtain s where "r = Some (Return s)"
      by (auto split: option.splits result.splits)
    with Opaque show ?thesis by simp
  next
    case (ErrorPtr inner)
    with Suc.prems E have wf: "wellformed n h inner" by simp
    then obtain z where z: "isZero h inner = Return z"
      using wellformed_isZero by blast
    from Suc.IH [OF wf, of "depth + 1"] obtain s where
      "error (n + k) h inner (depth + 1) '': '' ps = Some (Return s)" by blast
    with ErrorPtr z show ?thesis by simp
  qed
  then obtain b where b: "?inner = Some (Return b)" ..
  have "\<exists>s. (case StackTrace E of
               None \<Rightarrow> Some (Return b)
             | Some st \<Rightarrow>
                 if ps then Some (writeStack st depth '': '' (b @ [CHR 0x0A]))
                 else Some (Return b)) = Some (Return s)"
    using writeStack_colon by (simp split: option.split)
  with E b show ?case
    by (simp add: error.simps Let_def)
qed

text \<open>
  What else stops a renderer from returning a string: a node whose \<^verbatim>\<open>Inner\<close> points
  back to itself (the renderer does not come back, whatever the fuel), a foreign inner
  error whose \<^verbatim>\<open>Error()\<close> panics, and, for the constructors, a captured program
  counter that the runtime does not resolve.
\<close>

lemma error_cycle_no_return:
  "error fuel [\<lparr>Inner = ErrorPtr (Some 0), Message = m, StackTrace = st\<rparr>] (Some 0) depth sp ps = None"
  by (induction fuel arbitrary: depth)
     (simp_all add: error.simps deref_def isZero_def Let_def)

lemma error_foreign_panics: "Error (Suc fuel) example_foreign_panics (Some 0) = Some Panic"
  by (simp add: Error_def example_foreign_panics_def error_message_only deref_def)

lemma New_unresolved_panics:
  "None \<in> set (Callers lvl stack) \<Longrightarrow> New lvl stack h m = Panic"
  by (simp add: New_def newErr_def getStack_def getStack_unresolved)

lemma Wrap_unresolved_panics:
  "None \<in> set (Callers lvl stack) \<Longrightarrow> Wrap lvl stack h (Opaque r) m = Panic"
  by (simp add: Wrap_def wrapErr_def getStack_def getStack_unresolved Let_def)

text \<open>
  C8 (as amended). When the runtime resolves every captured program counter, whatever
  names, files and lines it gives and also when it captures none, \<^verbatim>\<open>New\<close> returns a
  node that can be rendered, and \<^verbatim>\<open>Wrap\<close> returns a node for the nil interface (with
  nil \<^verbatim>\<open>Inner\<close> and the trace captured at the call) and for an error of another type.
  \<^verbatim>\<open>Wrap\<close> returns a node for every pointer to an \<^verbatim>\<open>Error\<close>. Both modes of the
  renderer return a string for every chain that is finite, has no nil pointer of type
  \<^verbatim>\<open>*Error\<close> in it, and has no foreign error whose own \<^verbatim>\<open>Error()\<close> does not return,
  whatever its traces hold.
\<close>

theorem constructors_and_rendering_return:
  "(resolved (Callers lvl stack) \<longrightarrow>
      (\<exists>h' a. New lvl stack h m = Return (h', ErrorPtr (Some a)) \<and>
              wellformed (Suc 0) h' (Some a)) \<and>
      (\<exists>st. getStack lvl stack = Return st \<and>
            Wrap lvl stack h NilError m =
              Return (h @ [\<lparr>Inner = NilError, Message = m, StackTrace = st\<rparr>],
                      ErrorPtr (Some (length h)))) \<and>
      (\<exists>h'. Wrap lvl stack h (Opaque r) m = Return (h', ErrorPtr (Some (length h))) \<and>
            length h < length h')) \<and>
   (c < length h \<longrightarrow>
      (\<exists>h'. Wrap lvl stack h (ErrorPtr (Some c)) m = Return (h', ErrorPtr (Some (length h))) \<and>
            length h < length h')) \<and>
   (wellformed n g e \<longrightarrow>
      (\<exists>s. Error (n + k) g e = Some (Return s)) \<and>
      (\<exists>s. error (n + k) g e 0 '': '' True = Some (Return s)))"
proof (intro conjI impI)
  assume "resolved (Callers lvl stack)"
  then obtain st where st: "getStack lvl stack = Return st"
    using getStack_resolved by blast
  show "\<exists>h' a. New lvl stack h m = Return (h', ErrorPtr (Some a)) \<and>
              wellformed (Suc 0) h' (Some a)"
    by (simp add: New_eq [OF st] deref_def)
  show "\<exists>st. getStack lvl stack = Return st \<and>
            Wrap lvl stack h NilError m =
              Return (h @ [\<lparr>Inner = NilError, Message = m, StackTrace = st\<rparr>],
                      ErrorPtr (Some (length h)))"
    using st by (simp add: Wrap_NilError)
  show "\<exists>h'. Wrap lvl stack h (Opaque r) m = Return (h', ErrorPtr (Some (length h))) \<and>
         length h < length h'"
    by (simp add: Wrap_Opaque [OF st])
next
  assume "c < length h"
  then show "\<exists>h'. Wrap lvl stack h (ErrorPtr (Some c)) m = Return (h', ErrorPtr (Some (length h))) \<and>
            length h < length h'"
    by (simp add: Wrap_ErrorPtr)
next
  assume wf: "wellformed n g e"
  then show "\<exists>s. Error (n + k) g e = Some (Return s)"
    unfolding Error_def by (rule error_wellformed)
  from wf show "\<exists>s. error (n + k) g e 0 '': '' True = Some (Return s)"
    by (rule error_wellformed)
qed

theorem constructors_and_rendering_return_witness:
  "resolved (Callers callerSkipLevel_init example_stack) \<and>
   (\<exists>h'. Wrap callerSkipLevel_init example_stack example_chain
            (Opaque (Some (Return ''inner''))) ''top'' =
            Return (h', ErrorPtr (Some (length example_chain))) \<and>
         length example_chain < length h') \<and>
   (0::nat) < length example_chain \<and>
   (\<exists>h'. Wrap callerSkipLevel_init example_stack example_chain (ErrorPtr (Some 0)) ''top'' =
            Return (h', ErrorPtr (Some (length example_chain))) \<and>
         length example_chain < length h') \<and>
   wellformed 2 example_chain_foreign_end (Some 0) \<and>
   (\<exists>s. Error (2 + 0) example_chain_foreign_end (Some 0) = Some (Return s)) \<and>
   (\<exists>s. error (2 + 0) example_chain_foreign_end (Some 0) 0 '': '' True = Some (Return s))"
proof -
  have h0: "resolved (Callers callerSkipLevel_init example_stack)"
    by (rule resolved_example)
  have h1: "(0::nat) < length example_chain"
    by (simp add: example_chain_def)
  have h2: "wellformed 2 example_chain_foreign_end (Some 0)"
    by (simp add: example_chain_foreign_end_def numeral_2_eq_2 deref_def)
  show ?thesis
    using h0 h1 h2
      constructors_and_rendering_return [where h = example_chain and c = 0
        and g = example_chain_foreign_end and n = 2 and e = "Some 0" and k = 0
        and lvl = callerSkipLevel_init and stack = example_stack and m = "''top''"
        and r = "Some (Return ''inner'')"]
    by blast
qed

text \<open>
  A nil pointer of type \<^verbatim>\<open>*Error\<close>, passed as an \<^verbatim>\<open>error\<close>, passes the type
  assertion of \<^verbatim>\<open>wrapErr\<close> and is dereferenced by the copy: \<^verbatim>\<open>Wrap\<close> panics.
\<close>

theorem Wrap_nil_Error_pointer_panics:
  "Wrap callerSkipLevel_init example_stack [] (ErrorPtr None) ''outer'' = Panic"
  by (rule Wrap_nil_pointer)

subsection \<open>Wrap copies the cause\<close>

lemma reach_Suc_ptr:
  "reach (Suc n) h (ErrorPtr (Some a)) = a # (if a < length h then reach n h (Inner (h ! a)) else [])"
  by simp

lemma isZero_frame:
  "\<forall>b \<in> set (reach (Suc 0) h (ErrorPtr p)). b < length h \<and> b < length g \<and> g ! b = h ! b \<Longrightarrow>
   isZero g p = isZero h p"
  by (cases p) (auto simp: isZero_def deref_def)

lemma error_frame:
  "\<forall>b \<in> set (reach (Suc n) h (ErrorPtr p)). b < length h \<and> b < length g \<and> g ! b = h ! b \<Longrightarrow>
   error n g p depth sp ps = error n h p depth sp ps"
proof (induction n arbitrary: p depth)
  case 0
  then show ?case by simp
next
  case (Suc n)
  show ?case
  proof (cases p)
    case None
    then show ?thesis by (simp add: error.simps deref_def)
  next
    case (Some a)
    with Suc.prems have a: "a < length h" "a < length g" "g ! a = h ! a"
      by simp_all
    have rest: "\<forall>b \<in> set (reach (Suc n) h (Inner (h ! a))). b < length h \<and> b < length g \<and> g ! b = h ! b"
      using Suc.prems Some a by (simp del: reach.simps add: reach_Suc_ptr)
    have inner: "\<And>q. Inner (h ! a) = ErrorPtr q \<Longrightarrow>
        isZero g q = isZero h q \<and>
        error n g q (depth + 1) sp ps = error n h q (depth + 1) sp ps"
    proof -
      fix q assume q: "Inner (h ! a) = ErrorPtr q"
      with rest have r: "\<forall>b \<in> set (reach (Suc n) h (ErrorPtr q)). b < length h \<and> b < length g \<and> g ! b = h ! b"
        by simp
      then have "\<forall>b \<in> set (reach (Suc 0) h (ErrorPtr q)). b < length h \<and> b < length g \<and> g ! b = h ! b"
        by (cases q) auto
      then have "isZero g q = isZero h q" by (rule isZero_frame)
      moreover have "error n g q (depth + 1) sp ps = error n h q (depth + 1) sp ps"
        using r by (rule Suc.IH)
      ultimately show "isZero g q = isZero h q \<and>
        error n g q (depth + 1) sp ps = error n h q (depth + 1) sp ps" ..
    qed
    show ?thesis
    proof (cases "Inner (h ! a)")
      case NilError
      with Some a show ?thesis by (simp add: error.simps deref_def Let_def)
    next
      case (Opaque s)
      with Some a show ?thesis by (simp add: error.simps deref_def Let_def)
    next
      case (ErrorPtr q)
      note eq = inner [OF ErrorPtr]
      show ?thesis
      proof (cases "isZero h q")
        case Panic
        with Some a ErrorPtr eq show ?thesis by (simp add: error.simps deref_def Let_def)
      next
        case (Return zero)
        with Some a ErrorPtr eq show ?thesis
          by (cases zero) (simp_all add: error.simps deref_def Let_def)
      qed
    qed
  qed
qed

lemma reach_append:
  "closed h \<Longrightarrow> (\<forall>a. x = ErrorPtr (Some a) \<longrightarrow> a < length h) \<Longrightarrow>
   reach n (h @ ext) x = reach n h x"
proof (induction n arbitrary: x)
  case 0
  then show ?case by simp
next
  case (Suc n)
  show ?case
  proof (cases x)
    case NilError
    then show ?thesis by simp
  next
    case (Opaque s)
    then show ?thesis by simp
  next
    case (ErrorPtr p)
    show ?thesis
    proof (cases p)
      case None
      with ErrorPtr show ?thesis by simp
    next
      case (Some a)
      with ErrorPtr Suc.prems have a: "a < length h" by simp
      with Suc.prems(1) have "\<forall>b. Inner (h ! a) = ErrorPtr (Some b) \<longrightarrow> b < length h"
        by (simp add: closed_def)
      with Suc.prems(1) have "reach n (h @ ext) (Inner (h ! a)) = reach n h (Inner (h ! a))"
        by (intro Suc.IH) simp_all
      with ErrorPtr Some a show ?thesis by (simp add: nth_append)
    qed
  qed
qed

lemma reach_in_store:
  "closed h \<Longrightarrow> (\<forall>a. x = ErrorPtr (Some a) \<longrightarrow> a < length h) \<Longrightarrow>
   \<forall>b \<in> set (reach n h x). b < length h"
proof (induction n arbitrary: x)
  case 0
  then show ?case by simp
next
  case (Suc n)
  show ?case
  proof (cases x)
    case NilError
    then show ?thesis by simp
  next
    case (Opaque s)
    then show ?thesis by simp
  next
    case (ErrorPtr p)
    show ?thesis
    proof (cases p)
      case None
      with ErrorPtr show ?thesis by simp
    next
      case (Some a)
      with ErrorPtr Suc.prems have a: "a < length h" by simp
      with Suc.prems(1) have "\<forall>b. Inner (h ! a) = ErrorPtr (Some b) \<longrightarrow> b < length h"
        by (simp add: closed_def)
      with Suc.prems(1) have "\<forall>b \<in> set (reach n h (Inner (h ! a))). b < length h"
        by (intro Suc.IH) simp_all
      with ErrorPtr Some a show ?thesis by simp
    qed
  qed
qed

lemma Wrap_copy_frame:
  assumes a: "a < length h" and cl: "closed h"
    and acyc: "a \<notin> set (reach n h (Inner (h ! a)))"
  shows "error (Suc n)
           ((h @ [\<lparr>Inner = ErrorPtr (Some (Suc (length h))), Message = m, StackTrace = None\<rparr>, h ! a])
              [a := E'])
           (Some (length h)) depth sp ps =
         error (Suc n)
           (h @ [\<lparr>Inner = ErrorPtr (Some (Suc (length h))), Message = m, StackTrace = None\<rparr>, h ! a])
           (Some (length h)) depth sp ps"
proof -
  let ?w = "\<lparr>Inner = ErrorPtr (Some (Suc (length h))), Message = m, StackTrace = None\<rparr>"
  let ?h' = "h @ [?w, h ! a]"
  have inner_ok: "\<forall>b. Inner (h ! a) = ErrorPtr (Some b) \<longrightarrow> b < length h"
    using a cl by (simp add: closed_def)
  have r0: "reach n ?h' (Inner (h ! a)) = reach n h (Inner (h ! a))"
    using cl inner_ok by (rule reach_append)
  have r1: "\<forall>b \<in> set (reach n h (Inner (h ! a))). b < length h"
    using cl inner_ok by (rule reach_in_store)
  have visited: "reach (Suc (Suc n)) ?h' (ErrorPtr (Some (length h))) =
      length h # Suc (length h) # reach n h (Inner (h ! a))"
    using r0 by (simp add: nth_append)
  have "\<forall>b \<in> set (reach (Suc (Suc n)) ?h' (ErrorPtr (Some (length h)))).
          b < length ?h' \<and> b < length (?h'[a := E']) \<and> (?h'[a := E']) ! b = ?h' ! b"
    unfolding visited using a acyc r1 by (auto simp: nth_list_update)
  then show ?thesis by (rule error_frame)
qed

lemma reach_example_chain: "0 \<notin> set (reach n example_chain (Inner (example_chain ! 0)))"
proof -
  have r0: "\<And>k g. reach k g NilError = []"
    by (case_tac k) simp_all
  have r2: "\<And>k. set (reach k example_chain (ErrorPtr (Some 2))) \<subseteq> {2}"
    by (case_tac k) (simp_all add: r0 example_chain_def)
  have r1: "\<And>k. set (reach k example_chain (ErrorPtr (Some 1))) \<subseteq> {1, 2}"
  proof -
    fix k show "set (reach k example_chain (ErrorPtr (Some 1))) \<subseteq> {1, 2}"
    proof (cases k)
      case 0
      then show ?thesis by simp
    next
      case (Suc j)
      then show ?thesis using r2 [of j] by (auto simp: example_chain_def)
    qed
  qed
  have "Inner (example_chain ! 0) = ErrorPtr (Some 1)"
    by (simp add: example_chain_def)
  with r1 [of n] show ?thesis by auto
qed

text \<open>
  C5. For a cause that points to an \<^verbatim>\<open>Error\<close> of a store without dangling pointers,
  \<^verbatim>\<open>Wrap\<close> allocates the new node and a copy of the cause and nothing else: the copy
  holds the cause's three fields as they are (its \<^verbatim>\<open>Inner\<close> is the same pointer, not a
  clone), and the objects of the old store stay as they were. When the cause is not
  reachable from its own \<^verbatim>\<open>Inner\<close>, replacing the original cause object by any other
  value afterwards leaves both renderings of the wrapper as they were, for every fuel.
\<close>

theorem Wrap_copies_cause:
  "a < length h \<and> closed h \<and> (\<forall>n. a \<notin> set (reach n h (Inner (h ! a)))) \<longrightarrow>
     (\<exists>h'. Wrap lvl stack h (ErrorPtr (Some a)) m = Return (h', ErrorPtr (Some (length h))) \<and>
        length h' = Suc (Suc (length h)) \<and> take (length h) h' = h \<and>
        h' ! length h = \<lparr>Inner = ErrorPtr (Some (Suc (length h))), Message = m, StackTrace = None\<rparr> \<and>
        h' ! Suc (length h) = h ! a \<and>
        (\<forall>E' fuel depth sp ps.
           error fuel (h'[a := E']) (Some (length h)) depth sp ps =
           error fuel h' (Some (length h)) depth sp ps))"
proof
  assume hyp: "a < length h \<and> closed h \<and> (\<forall>n. a \<notin> set (reach n h (Inner (h ! a))))"
  let ?h' = "h @ [\<lparr>Inner = ErrorPtr (Some (Suc (length h))), Message = m, StackTrace = None\<rparr>, h ! a]"
  have w: "Wrap lvl stack h (ErrorPtr (Some a)) m = Return (?h', ErrorPtr (Some (length h)))"
    using hyp by (simp add: Wrap_ErrorPtr)
  have shape: "length ?h' = Suc (Suc (length h)) \<and> take (length h) ?h' = h \<and>
        ?h' ! length h = \<lparr>Inner = ErrorPtr (Some (Suc (length h))), Message = m, StackTrace = None\<rparr> \<and>
        ?h' ! Suc (length h) = h ! a"
    by (simp add: nth_append)
  have frame: "error fuel (?h'[a := E']) (Some (length h)) depth sp ps =
           error fuel ?h' (Some (length h)) depth sp ps" for E' fuel depth sp ps
  proof (cases fuel)
    case 0
    then show ?thesis by simp
  next
    case (Suc n)
    from hyp have "a < length h" "closed h" "a \<notin> set (reach n h (Inner (h ! a)))"
      by simp_all
    then show ?thesis
      unfolding Suc by (rule Wrap_copy_frame)
  qed
  from w shape frame show "\<exists>h'. Wrap lvl stack h (ErrorPtr (Some a)) m = Return (h', ErrorPtr (Some (length h))) \<and>
        length h' = Suc (Suc (length h)) \<and> take (length h) h' = h \<and>
        h' ! length h = \<lparr>Inner = ErrorPtr (Some (Suc (length h))), Message = m, StackTrace = None\<rparr> \<and>
        h' ! Suc (length h) = h ! a \<and>
        (\<forall>E' fuel depth sp ps.
           error fuel (h'[a := E']) (Some (length h)) depth sp ps =
           error fuel h' (Some (length h)) depth sp ps)"
    by blast
qed

theorem Wrap_copies_cause_witness:
  "(0::nat) < length example_chain \<and> closed example_chain \<and>
   (\<forall>n. 0 \<notin> set (reach n example_chain (Inner (example_chain ! 0)))) \<and>
   (\<exists>h'. Wrap callerSkipLevel_init example_stack example_chain (ErrorPtr (Some 0)) ''top'' =
            Return (h', ErrorPtr (Some (length example_chain))) \<and>
        h' ! Suc (length example_chain) = example_chain ! 0 \<and>
        (\<forall>E' fuel depth sp ps.
           error fuel (h'[0 := E']) (Some (length example_chain)) depth sp ps =
           error fuel h' (Some (length example_chain)) depth sp ps))"
proof -
  have h1: "(0::nat) < length example_chain"
    by (simp add: example_chain_def)
  have h2: "closed example_chain"
    by (auto simp: closed_def example_chain_def less_Suc_eq)
  have h3: "\<forall>n. 0 \<notin> set (reach n example_chain (Inner (example_chain ! 0)))"
    using reach_example_chain by blast
  show ?thesis
    using h1 h2 h3
      Wrap_copies_cause [where a = 0 and h = example_chain and lvl = callerSkipLevel_init
        and stack = example_stack and m = "''top''"]
    by blast
qed

text \<open>
  The example: after \<^verbatim>\<open>Wrap\<close>, the original cause gets another message and loses its
  inner error; the wrapper renders as before.
\<close>

lemma Wrap_then_mutate_example:
  "Error 4 ((example_chain @
              [\<lparr>Inner = ErrorPtr (Some 4), Message = ''top'', StackTrace = None\<rparr>, example_chain ! 0])
             [0 := \<lparr>Inner = NilError, Message = ''changed'', StackTrace = None\<rparr>]) (Some 3) =
     Some (Return ''top: outer: middle: inner'')"
  by (simp add: Error_def example_chain_def error_message_only deref_def isZero_def pad_def
      eval_nat_numeral)

end
